theory Spec2Isabelle
  imports Complex_Main "HOL-Library.Multiset" "HOL-Library.Product_Lexorder"
    "HOL-Library.Char_ord" "HOL-Library.List_Lexorder"
begin

section \<open>Records handed to the trend analyzer\<close>

text \<open>
  The analyzer (\<^verbatim>\<open>src/modules/analyzer.py\<close>, class \<^verbatim>\<open>TrendAnalyzer\<close>) reads each paper
  through \<^verbatim>\<open>paper.get(key)\<close>. A field is \<open>None\<close> when the key is absent; a key that holds
  Python's \<^verbatim>\<open>None\<close> reads the same through \<^verbatim>\<open>get(key)\<close> and is not told apart. Strings are
  lists of characters; the model is exact for ASCII text.
\<close>

record paper =
  year :: "int option"
  all_keywords :: "string list option"
  keywords_normalized :: "string list option"
  "keywords" :: "string list option"
  abstract_tokens :: "string list option"
  limitations :: "string option"
  future_research :: "string option"
  citations :: "int option"

text \<open>Python truthiness of the values met here: an empty list, an empty string, \<^verbatim>\<open>None\<close>
  and the integer 0 are false (so \<^verbatim>\<open>if not year\<close> also skips the year 0).\<close>

fun truthy_list :: "'a list option \<Rightarrow> bool" where
  "truthy_list None = False"
| "truthy_list (Some xs) = (xs \<noteq> [])"

definition items :: "'a list option \<Rightarrow> 'a list" where
  "items v = (case v of None \<Rightarrow> [] | Some xs \<Rightarrow> xs)"

text \<open>\<^verbatim>\<open>str.lower\<close> on ASCII text.\<close>

definition lower_char :: "char \<Rightarrow> char" where
  "lower_char c =
     (case map_of (zip ''ABCDEFGHIJKLMNOPQRSTUVWXYZ'' ''abcdefghijklmnopqrstuvwxyz'') c of
        None \<Rightarrow> c
      | Some d \<Rightarrow> d)"

definition lower :: "string \<Rightarrow> string" where
  "lower s = map lower_char s"

text \<open>
  The order in which Python iterates over a \<^verbatim>\<open>set\<close> of strings is not fixed by the
  language. Every function that iterates over a set takes the iteration order as a parameter
  \<open>it\<close>: given the elements put into the set, it returns them without repetition in the order
  of iteration. \<open>set_order\<close> is all that is known of it.
\<close>

type_synonym set_iter = "string list \<Rightarrow> string list"

definition set_order :: "set_iter \<Rightarrow> bool" where
  "set_order it = (\<forall>xs. distinct (it xs) \<and> set (it xs) = set xs)"

section \<open>Counters\<close>

text \<open>A \<^verbatim>\<open>collections.Counter\<close> is a dictionary: keys in insertion order, one entry per key.\<close>

type_synonym 'k counter = "('k \<times> nat) list"

fun counter_add :: "'k \<Rightarrow> nat \<Rightarrow> 'k counter \<Rightarrow> 'k counter" where
  "counter_add k n [] = [(k, n)]"
| "counter_add k n ((k', c) # rest) =
     (if k = k' then (k', c + n) # rest else (k', c) # counter_add k n rest)"

definition counter_get :: "'k counter \<Rightarrow> 'k \<Rightarrow> nat" where
  "counter_get c k = (case map_of c k of None \<Rightarrow> 0 | Some n \<Rightarrow> n)"

text \<open>\<^verbatim>\<open>Counter.update(iterable)\<close> adds one per element; \<^verbatim>\<open>Counter.update(mapping)\<close> adds
  the mapping's counts.\<close>

definition counter_update :: "'k list \<Rightarrow> 'k counter \<Rightarrow> 'k counter" where
  "counter_update ks c = fold (\<lambda>k. counter_add k 1) ks c"

definition counter_update_counts :: "'k counter \<Rightarrow> 'k counter \<Rightarrow> 'k counter" where
  "counter_update_counts m c = fold (\<lambda>(k, n). counter_add k n) m c"

text \<open>\<^verbatim>\<open>most_common()\<close> is \<^verbatim>\<open>sorted(items, key=count, reverse=True)\<close>: a stable sort by
  descending count. \<^verbatim>\<open>most_common(n)\<close> is its first \<open>n\<close> entries.\<close>

definition most_common :: "'k counter \<Rightarrow> 'k counter" where
  "most_common c = sort_key (\<lambda>(k, n). - int n) c"

definition most_common_n :: "nat \<Rightarrow> 'k counter \<Rightarrow> 'k counter" where
  "most_common_n n c = take n (most_common c)"

section \<open>Keyword frequencies\<close>

text \<open>\<^verbatim>\<open>analyze_keywords\<close>: the keyword set of a paper is taken from \<^verbatim>\<open>all_keywords\<close>, else
  from \<^verbatim>\<open>keywords_normalized\<close>, else from the lowercased \<^verbatim>\<open>keywords\<close>.\<close>

definition keywords_agg :: "set_iter \<Rightarrow> paper \<Rightarrow> string list" where
  "keywords_agg it p =
     it (if truthy_list (all_keywords p) then items (all_keywords p)
         else if truthy_list (keywords_normalized p) then items (keywords_normalized p)
         else if truthy_list (keywords p) then map lower (items (keywords p))
         else [])"

definition analyze_keywords :: "set_iter \<Rightarrow> paper list \<Rightarrow> string counter" where
  "analyze_keywords it papers =
     most_common (fold (\<lambda>p c. counter_update (keywords_agg it p) c) papers [])"

text \<open>\<^verbatim>\<open>analyze_keywords_by_year\<close>, \<^verbatim>\<open>lda_topic_modeling\<close> and
  \<^verbatim>\<open>build_cooccurrence_network\<close> take \<^verbatim>\<open>all_keywords\<close>, else the lowercased
  \<^verbatim>\<open>keywords\<close>.\<close>

definition keywords_of :: "set_iter \<Rightarrow> paper \<Rightarrow> string list" where
  "keywords_of it p =
     it (if truthy_list (all_keywords p) then items (all_keywords p)
         else if truthy_list (keywords p) then map lower (items (keywords p))
         else [])"

text \<open>\<^verbatim>\<open>yearly_keywords[year].update(keywords)\<close> on a \<^verbatim>\<open>defaultdict(Counter)\<close>: the year's
  entry is created on first access, also when the keyword set is empty.\<close>

fun yearly_update :: "int \<Rightarrow> string list \<Rightarrow> (int \<times> string counter) list
    \<Rightarrow> (int \<times> string counter) list" where
  "yearly_update y ks [] = [(y, counter_update ks [])]"
| "yearly_update y ks ((y', c) # rest) =
     (if y = y' then (y', counter_update ks c) # rest else (y', c) # yearly_update y ks rest)"

definition yearly_step :: "set_iter \<Rightarrow> paper \<Rightarrow> (int \<times> string counter) list
    \<Rightarrow> (int \<times> string counter) list" where
  "yearly_step it p yk =
     (case year p of
        None \<Rightarrow> yk
      | Some y \<Rightarrow> if y = 0 then yk else yearly_update y (keywords_of it p) yk)"

definition yearly_get :: "(int \<times> string counter) list \<Rightarrow> int \<Rightarrow> string counter" where
  "yearly_get yk y = (case map_of yk y of None \<Rightarrow> [] | Some c \<Rightarrow> c)"

definition analyze_keywords_by_year :: "set_iter \<Rightarrow> paper list \<Rightarrow> (int \<times> string counter) list" where
  "analyze_keywords_by_year it papers =
     (let yearly_keywords = fold (yearly_step it) papers []
      in map (\<lambda>y. (y, most_common (yearly_get yearly_keywords y)))
           (sort (map fst yearly_keywords)))"

section \<open>Burst words\<close>

text \<open>
  The growth rate of \<^verbatim>\<open>detect_burst_words\<close> is \<^verbatim>\<open>float('inf')\<close>, the integer
  \<^verbatim>\<open>recent_freq\<close>, or a quotient of two counts. Quotients are exact rationals here; the
  double-precision quotient compares the same way with 0.5 and with every other such quotient
  as long as the counts stay below \<open>2^26\<close>.
\<close>

datatype growth = Inf | Fin rat

record burst =
  keyword :: string
  recent_freq :: nat
  earlier_freq :: nat
  growth_rate :: rat
  is_new :: bool
  trend :: string

definition computed_growth :: "nat \<Rightarrow> nat \<Rightarrow> growth" where
  "computed_growth rf ef =
     (if ef = 0 then (if rf \<ge> 3 then Inf else Fin (of_nat rf))
      else Fin (of_int (int rf - int ef) / of_int (int ef)))"

fun exceeds_half :: "growth \<Rightarrow> bool" where
  "exceeds_half Inf = True"
| "exceeds_half (Fin q) = (q > 1 / 2)"

fun reported_growth :: "growth \<Rightarrow> rat" where
  "reported_growth Inf = 10"
| "reported_growth (Fin q) = q"

definition burst_kept :: "nat \<Rightarrow> nat \<Rightarrow> bool" where
  "burst_kept rf ef =
     (exceeds_half (computed_growth rf ef) \<or> (ef = 0 \<and> rf \<ge> 3))"

definition burst_entry :: "string \<Rightarrow> nat \<Rightarrow> nat \<Rightarrow> burst" where
  "burst_entry k rf ef =
     \<lparr>keyword = k, recent_freq = rf, earlier_freq = ef,
      growth_rate = reported_growth (computed_growth rf ef),
      is_new = (ef = 0), trend = ''rising''\<rparr>"

definition recent_years :: "int list \<Rightarrow> int list" where
  "recent_years years = drop (length years - 2) years"

definition earlier_years :: "int list \<Rightarrow> int list" where
  "earlier_years years =
     (if length years > 2 then take (length years - 2) years else take 1 years)"

definition window_counts :: "(int \<times> string counter) list \<Rightarrow> int list \<Rightarrow> string counter" where
  "window_counts yearly ys = fold (\<lambda>y c. counter_update_counts (yearly_get yearly y) c) ys []"

definition burst_sort :: "burst list \<Rightarrow> burst list" where
  "burst_sort bs = sort_key (\<lambda>b. (- growth_rate b, - int (recent_freq b))) bs"

definition burst_years :: "set_iter \<Rightarrow> paper list \<Rightarrow> int list" where
  "burst_years it papers = sort (map fst (analyze_keywords_by_year it papers))"

definition recent_keywords :: "set_iter \<Rightarrow> paper list \<Rightarrow> string counter" where
  "recent_keywords it papers =
     window_counts (analyze_keywords_by_year it papers) (recent_years (burst_years it papers))"

definition earlier_keywords :: "set_iter \<Rightarrow> paper list \<Rightarrow> string counter" where
  "earlier_keywords it papers =
     window_counts (analyze_keywords_by_year it papers) (earlier_years (burst_years it papers))"

definition detect_burst_words :: "set_iter \<Rightarrow> paper list \<Rightarrow> burst list" where
  "detect_burst_words it papers =
     (if length (analyze_keywords_by_year it papers) < 2 then []
      else
        let burst_words =
              map (\<lambda>(k, rf). burst_entry k rf (counter_get (earlier_keywords it papers) k))
                (filter (\<lambda>(k, rf). burst_kept rf (counter_get (earlier_keywords it papers) k))
                   (recent_keywords it papers))
        in burst_sort burst_words)"

text \<open>The years with which a record enters the yearly table: present and not 0.\<close>

definition known_years :: "paper list \<Rightarrow> int list" where
  "known_years papers =
     concat (map (\<lambda>p. case year p of None \<Rightarrow> [] | Some y \<Rightarrow> if y = 0 then [] else [y]) papers)"

text \<open>The scenario of three records with years 2023, 2023, 2025.\<close>

definition keyword_paper :: "int option \<Rightarrow> string list \<Rightarrow> paper" where
  "keyword_paper y ks =
     \<lparr>year = y, all_keywords = Some ks, keywords_normalized = None, keywords = None,
      abstract_tokens = None, limitations = None, future_research = None, citations = None\<rparr>"

definition scenario_papers :: "paper list" where
  "scenario_papers =
     [keyword_paper (Some 2023) [''ai'', ''tourism''],
      keyword_paper (Some 2023) [''ai'', ''satisfaction''],
      keyword_paper (Some 2025) [''vr'', ''tourism'']]"

text \<open>Five records over four years: \<open>hotel\<close> grows from 2 to 3 (exactly one half), \<open>ai\<close> from 1
  to 3, \<open>covid\<close> falls from 2 to 1, \<open>llm\<close> is new three times and \<open>vr\<close> is new once.\<close>

definition burst_corpus :: "paper list" where
  "burst_corpus =
     [keyword_paper (Some 2021) [''hotel'', ''ai'', ''covid''],
      keyword_paper (Some 2022) [''hotel'', ''covid''],
      keyword_paper (Some 2023) [''hotel'', ''ai'', ''llm''],
      keyword_paper (Some 2023) [''hotel'', ''ai'', ''llm'', ''covid''],
      keyword_paper (Some 2024) [''hotel'', ''ai'', ''llm'', ''vr'']]"

section \<open>Per-year and aggregate frequencies compared\<close>

text \<open>The total of a keyword over the years of a yearly table, and the records that enter it.\<close>

definition yearly_total :: "(int \<times> string counter) list \<Rightarrow> string \<Rightarrow> nat" where
  "yearly_total table k = sum_list (map (\<lambda>(y, c). counter_get c k) table)"

definition has_year :: "paper \<Rightarrow> bool" where
  "has_year p = (case year p of None \<Rightarrow> False | Some y \<Rightarrow> y \<noteq> 0)"

text \<open>A record of the year 2020 whose \<^verbatim>\<open>all_keywords\<close> is missing while both
  \<^verbatim>\<open>keywords_normalized\<close> and \<^verbatim>\<open>keywords\<close> are present.\<close>

definition unmerged_paper :: paper where
  "unmerged_paper =
     \<lparr>year = Some 2020, all_keywords = None, keywords_normalized = Some [''tourist''],
      keywords = Some [''Tourists''], abstract_tokens = None, limitations = None,
      future_research = None, citations = None\<rparr>"



section \<open>Co-occurrence network\<close>

text \<open>The slice \<^verbatim>\<open>xs[:n]\<close>; a negative \<open>n\<close> counts from the end.\<close>

definition py_take :: "int \<Rightarrow> 'a list \<Rightarrow> 'a list" where
  "py_take n xs = (if 0 \<le> n then take (nat n) xs else take (length xs - nat (- n)) xs)"

text \<open>The pairs \<open>(xs[i], xs[j])\<close> with \<open>i < j\<close>, in the order of the two nested loops.\<close>

fun pairs :: "'a list \<Rightarrow> ('a \<times> 'a) list" where
  "pairs [] = []"
| "pairs (x # xs) = map (Pair x) xs @ pairs xs"

text \<open>\<^verbatim>\<open>tuple(sorted([kw1, kw2]))\<close>; Python compares strings by code point, as the lexicographic
  order on character lists does.\<close>

definition sorted_pair :: "string \<times> string \<Rightarrow> string \<times> string" where
  "sorted_pair p = (if snd p < fst p then (snd p, fst p) else p)"

record node =
  node_id :: string
  label :: string
  node_size :: nat

record edge =
  source :: string
  target :: string
  weight :: nat

record network =
  nodes :: "node list"
  edges :: "edge list"

definition top_keywords :: "set_iter \<Rightarrow> int \<Rightarrow> paper list \<Rightarrow> string list" where
  "top_keywords it top_n papers = py_take top_n (map fst (analyze_keywords it papers))"

text \<open>\<^verbatim>\<open>list(keywords & set(top_keywords))\<close>: the intersection is a new set with an iteration
  order of its own.\<close>

definition restricted_keywords :: "set_iter \<Rightarrow> string list \<Rightarrow> paper \<Rightarrow> string list" where
  "restricted_keywords it tops p = it (filter (\<lambda>k. k \<in> set tops) (keywords_of it p))"

definition cooccurrence_counts :: "set_iter \<Rightarrow> string list \<Rightarrow> paper list
    \<Rightarrow> (string \<times> string) counter" where
  "cooccurrence_counts it tops papers =
     fold (\<lambda>p c. counter_update (map sorted_pair (pairs (restricted_keywords it tops p))) c)
       papers []"

definition build_cooccurrence_network :: "set_iter \<Rightarrow> paper list \<Rightarrow> int \<Rightarrow> network" where
  "build_cooccurrence_network it papers top_n =
     (let keyword_freq = analyze_keywords it papers;
          tops = top_keywords it top_n papers;
          cooccurrence = cooccurrence_counts it tops papers;
          ns = map (\<lambda>kw. \<lparr>node_id = kw, label = kw,
                       node_size = (case map_of keyword_freq kw of None \<Rightarrow> 1 | Some n \<Rightarrow> n)\<rparr>) tops;
          es = map (\<lambda>((s, t), w). \<lparr>source = s, target = t, weight = w\<rparr>)
                 (filter (\<lambda>(pair, w). 2 \<le> w) cooccurrence)
      in \<lparr>nodes = ns, edges = take 200 (sort_key (\<lambda>e. - int (weight e)) es)\<rparr>)"

text \<open>The keyword set of a record restricted to the node set.\<close>

definition restricted_set :: "set_iter \<Rightarrow> string list \<Rightarrow> paper \<Rightarrow> string set" where
  "restricted_set it tops p = set (keywords_of it p) \<inter> set tops"

section \<open>Topic clustering\<close>

text \<open>Exceptions of the Python code are values.\<close>

datatype py_error = IndexError | TypeError | ValueError | AttributeError

text \<open>The candidate words of a record: \<^verbatim>\<open>all_keywords\<close> and the first 20 abstract tokens,
  collected in a set and turned into a list.\<close>

definition document_words :: "set_iter \<Rightarrow> paper \<Rightarrow> string list" where
  "document_words it p =
     it ((if truthy_list (all_keywords p) then items (all_keywords p) else [])
         @ (if truthy_list (abstract_tokens p) then take 20 (items (abstract_tokens p)) else []))"

definition word_freq :: "string list list \<Rightarrow> string counter" where
  "word_freq documents = fold counter_update documents []"

text \<open>
  \<^verbatim>\<open>min_freq = max(2, len(documents) * 0.01)\<close> is a floating-point product. The parameter
  \<open>times_001\<close> stands for \<^verbatim>\<open>n * 0.01\<close> as the machine computes it (it is not always the exact
  hundredth: \<^verbatim>\<open>700 * 0.01\<close> is \<^verbatim>\<open>7.000000000000001\<close>). \<open>valid_words\<close> is a set comprehension,
  so it has an iteration order of its own.
\<close>

definition valid_words :: "set_iter \<Rightarrow> (nat \<Rightarrow> rat) \<Rightarrow> string list list \<Rightarrow> string list" where
  "valid_words it times_001 documents =
     it (map fst (filter (\<lambda>(w, f). max 2 (times_001 (length documents)) \<le> of_nat f)
                    (word_freq documents)))"

text \<open>\<^verbatim>\<open>cooccurrence = defaultdict(Counter)\<close> and \<^verbatim>\<open>cooccurrence[w1][w2] += 1\<close>.\<close>

fun nested_add :: "string \<Rightarrow> string \<Rightarrow> (string \<times> string counter) list
    \<Rightarrow> (string \<times> string counter) list" where
  "nested_add w1 w2 [] = [(w1, [(w2, 1)])]"
| "nested_add w1 w2 ((k, c) # rest) =
     (if k = w1 then (k, counter_add w2 1 c) # rest else (k, c) # nested_add w1 w2 rest)"

definition nested_get :: "(string \<times> string counter) list \<Rightarrow> string \<Rightarrow> string counter" where
  "nested_get m w = (case map_of m w of None \<Rightarrow> [] | Some c \<Rightarrow> c)"

definition word_cooccurrence :: "string list \<Rightarrow> string list list
    \<Rightarrow> (string \<times> string counter) list" where
  "word_cooccurrence valid documents =
     fold (\<lambda>doc m.
             fold (\<lambda>(w1, w2) m. nested_add w2 w1 (nested_add w1 w2 m))
               (pairs (filter (\<lambda>w. w \<in> set valid) doc)) m)
       documents []"

definition seed_words :: "string counter \<Rightarrow> string list \<Rightarrow> string list" where
  "seed_words freq valid = sort_key (\<lambda>w. - int (counter_get freq w)) valid"

text \<open>\<^verbatim>\<open>str.title\<close> on ASCII text: a letter is upper case after a character that is not a
  letter, lower case after a letter.\<close>

definition upper_char :: "char \<Rightarrow> char" where
  "upper_char c =
     (case map_of (zip ''abcdefghijklmnopqrstuvwxyz'' ''ABCDEFGHIJKLMNOPQRSTUVWXYZ'') c of
        None \<Rightarrow> c
      | Some d \<Rightarrow> d)"

definition is_lower :: "char \<Rightarrow> bool" where
  "is_lower c = (c \<in> set ''abcdefghijklmnopqrstuvwxyz'')"

definition is_upper :: "char \<Rightarrow> bool" where
  "is_upper c = (c \<in> set ''ABCDEFGHIJKLMNOPQRSTUVWXYZ'')"

fun title_from :: "bool \<Rightarrow> string \<Rightarrow> string" where
  "title_from prev [] = []"
| "title_from prev (c # cs) =
     (if is_lower c then (if prev then c else upper_char c) # title_from True cs
      else if is_upper c then (if prev then lower_char c else c) # title_from True cs
      else c # title_from False cs)"

definition title :: "string \<Rightarrow> string" where
  "title s = title_from False s"

fun generate_topic_label :: "string list \<Rightarrow> string" where
  "generate_topic_label (a # b # rest) = title a @ '' & '' @ title b"
| "generate_topic_label [a] = title a"
| "generate_topic_label [] = ''Unknown Topic''"

text \<open>\<^verbatim>\<open>_generate_topic_description\<close> reads \<^verbatim>\<open>keywords[0]\<close> in its last branch, which raises
  \<^verbatim>\<open>IndexError\<close> on the empty list.\<close>

fun generate_topic_description :: "string list \<Rightarrow> py_error + string" where
  "generate_topic_description (a # b # c # d # e # rest) =
     Inr (''This topic focuses on '' @ a @ '', exploring its relationship with '' @ b @ '', ''
          @ c @ '', and related concepts such as '' @ d @ '' and '' @ e @ ''.'')"
| "generate_topic_description (a # b # c # rest) =
     Inr (''This topic examines '' @ a @ '' in relation to '' @ b @ '' and '' @ c @ ''.'')"
| "generate_topic_description (a # rest) = Inr (''This topic centers on '' @ a @ ''.'')"
| "generate_topic_description [] = Inl IndexError"

definition count_topic_documents :: "string list list \<Rightarrow> string list \<Rightarrow> nat" where
  "count_topic_documents documents topic_words =
     length (filter (\<lambda>doc. \<exists>w \<in> set doc. w \<in> set topic_words) documents)"

record topic =
  topic_id :: nat
  topic_keywords :: "string list"
  topic_label :: string
  description :: string
  document_count :: nat

text \<open>The members of the topic of a seed: the seed, then the words of \<open>related\<close> that are not
  used, while the topic has fewer than 15 words.\<close>

definition topic_members :: "string set \<Rightarrow> string \<Rightarrow> string counter \<Rightarrow> string list" where
  "topic_members used seed related =
     fold (\<lambda>(word, n) topic_words.
             if word \<notin> used \<and> length topic_words < 15 then topic_words @ [word]
             else topic_words)
       related [seed]"

text \<open>The loop over the seeds, with \<open>used_words\<close> and \<open>topics\<close> as its state.\<close>

fun cluster_loop :: "int \<Rightarrow> (string \<times> string counter) list \<Rightarrow> string list list
    \<Rightarrow> string list \<Rightarrow> string set \<Rightarrow> topic list \<Rightarrow> py_error + topic list" where
  "cluster_loop n_topics cooccurrence documents [] used topics = Inr topics"
| "cluster_loop n_topics cooccurrence documents (seed # seeds) used topics =
     (if seed \<in> used then cluster_loop n_topics cooccurrence documents seeds used topics
      else if n_topics \<le> int (length topics) then Inr topics
      else
        let related = most_common_n 20 (nested_get cooccurrence seed);
            topic_words = topic_members used seed related
        in if 3 \<le> length topic_words then
             (case generate_topic_description topic_words of
                Inl e \<Rightarrow> Inl e
              | Inr d \<Rightarrow>
                  cluster_loop n_topics cooccurrence documents seeds
                    (used \<union> set topic_words)
                    (topics @ [\<lparr>topic_id = length topics + 1, topic_keywords = topic_words,
                                topic_label = generate_topic_label topic_words,
                                description = d,
                                document_count = count_topic_documents documents topic_words\<rparr>]))
           else cluster_loop n_topics cooccurrence documents seeds used topics)"

definition lda_documents :: "set_iter \<Rightarrow> paper list \<Rightarrow> string list list" where
  "lda_documents it papers = map (document_words it) papers"

definition lda_topic_modeling :: "set_iter \<Rightarrow> (nat \<Rightarrow> rat) \<Rightarrow> int \<Rightarrow> paper list
    \<Rightarrow> py_error + topic list" where
  "lda_topic_modeling it times_001 n_topics papers =
     (let documents = lda_documents it papers;
          valid = valid_words it times_001 documents;
          cooccurrence = word_cooccurrence valid documents
      in cluster_loop n_topics cooccurrence documents
           (seed_words (word_freq documents) valid) {} [])"

text \<open>What the clustering loop keeps true of each topic, for seeds taken from \<open>S\<close>: between 3
  and 15 members, the first a seed, the others among the words that co-occur with it.\<close>

definition members_ok :: "string set \<Rightarrow> (string \<times> string counter) list \<Rightarrow> topic \<Rightarrow> bool" where
  "members_ok S cooc t =
     (3 \<le> length (topic_keywords t) \<and> length (topic_keywords t) \<le> 15
      \<and> hd (topic_keywords t) \<in> S
      \<and> set (tl (topic_keywords t)) \<subseteq> fst ` set (nested_get cooc (hd (topic_keywords t))))"

abbreviation disjoint_topics :: "topic list \<Rightarrow> bool" where
  "disjoint_topics ts \<equiv>
     sorted_wrt (\<lambda>a b. set (topic_keywords a) \<inter> set (topic_keywords b) = {}) ts"

text \<open>A corpus of six records, four on technology and two on rural wellness.\<close>

definition token_paper :: "string list \<Rightarrow> string list \<Rightarrow> paper" where
  "token_paper ks ts =
     \<lparr>year = None, all_keywords = Some ks, keywords_normalized = None, keywords = None,
      abstract_tokens = Some ts, limitations = None, future_research = None, citations = None\<rparr>"

definition topic_corpus :: "paper list" where
  "topic_corpus =
     [token_paper [''ai'', ''tourism'', ''hotel''] [''vr'', ''smart tourism''],
      token_paper [''ai'', ''tourism'', ''vr''] [''hotel''],
      token_paper [''ai'', ''hotel'', ''robot''] [''robot'', ''service''],
      token_paper [''robot'', ''service'', ''ai''] [],
      token_paper [''wellness'', ''rural'', ''heritage''] [],
      token_paper [''wellness'', ''rural'', ''heritage'', ''urban''] []]"

section \<open>Research gaps\<close>

text \<open>\<^verbatim>\<open>str.split()\<close> cuts at runs of whitespace; these are the ASCII whitespace characters of
  Python.\<close>

definition is_space :: "char \<Rightarrow> bool" where
  "is_space c =
     (c \<in> set [CHR '' '', CHR 0x09, CHR 0x0A, CHR 0x0B, CHR 0x0C, CHR 0x0D,
               CHR 0x1C, CHR 0x1D, CHR 0x1E, CHR 0x1F])"

fun split_from :: "string \<Rightarrow> string \<Rightarrow> string list" where
  "split_from cur [] = (if cur = [] then [] else [cur])"
| "split_from cur (c # cs) =
     (if is_space c then (if cur = [] then split_from [] cs else cur # split_from [] cs)
      else split_from (cur @ [c]) cs)"

definition split :: "string \<Rightarrow> string list" where
  "split s = split_from [] s"

text \<open>\<^verbatim>\<open>', '.join(xs)\<close>.\<close>

fun join :: "string \<Rightarrow> string list \<Rightarrow> string" where
  "join sep [] = []"
| "join sep [x] = x"
| "join sep (x # y # ys) = x @ sep @ join sep (y # ys)"

definition long_words :: "string \<Rightarrow> string list" where
  "long_words s = filter (\<lambda>w. 4 < length w) (split (lower s))"

text \<open>The counter of the words of one narrative field (\<^verbatim>\<open>limitations\<close> or
  \<^verbatim>\<open>future_research\<close>) over the records where the field is a non-empty string. The source
  fills both counters in one loop over the papers; they do not depend on each other.\<close>

definition themes :: "(paper \<Rightarrow> string option) \<Rightarrow> paper list \<Rightarrow> string counter" where
  "themes field papers =
     fold (\<lambda>p c. case field p of
                    None \<Rightarrow> c
                  | Some s \<Rightarrow> if s = [] then c else counter_update (long_words s) c)
       papers []"

definition common_words :: "string counter \<Rightarrow> string list" where
  "common_words c = map fst (filter (\<lambda>(w, n). 2 \<le> n) (most_common_n 20 c))"

definition has_text :: "string option \<Rightarrow> bool" where
  "has_text v = (case v of None \<Rightarrow> False | Some s \<Rightarrow> s \<noteq> [])"

text \<open>\<^verbatim>\<open>paper.get('all_keywords', paper.get('keywords', []))\<close> and
  \<^verbatim>\<open>paper.get('citations', 0)\<close>: the default is taken only when the key is absent.\<close>

definition listed_keywords :: "paper \<Rightarrow> string list" where
  "listed_keywords p =
     (case all_keywords p of
        Some ks \<Rightarrow> ks
      | None \<Rightarrow> (case keywords p of Some ks \<Rightarrow> ks | None \<Rightarrow> []))"

definition citations_of :: "paper \<Rightarrow> int" where
  "citations_of p = (case citations p of None \<Rightarrow> 0 | Some n \<Rightarrow> n)"

text \<open>\<^verbatim>\<open>keyword_citations = defaultdict(list)\<close> with \<^verbatim>\<open>keyword_citations[kw].append(c)\<close>.\<close>

fun citations_append :: "string \<Rightarrow> int \<Rightarrow> (string \<times> int list) list
    \<Rightarrow> (string \<times> int list) list" where
  "citations_append kw n [] = [(kw, [n])]"
| "citations_append kw n ((k, cs) # rest) =
     (if k = kw then (k, cs @ [n]) # rest else (k, cs) # citations_append kw n rest)"

definition keyword_citations :: "paper list \<Rightarrow> (string \<times> int list) list" where
  "keyword_citations papers =
     fold (\<lambda>p m. fold (\<lambda>kw m. citations_append (lower kw) (citations_of p) m)
                    (listed_keywords p) m)
       papers []"

definition keyword_freq :: "paper list \<Rightarrow> string counter" where
  "keyword_freq papers = fold (\<lambda>p c. counter_update (map lower (listed_keywords p)) c) papers []"

record potential =
  potential_keyword :: string
  avg_citations :: rat
  frequency :: nat

text \<open>The mean of the citations is an exact rational.\<close>

definition high_impact_low_freq :: "paper list \<Rightarrow> potential list" where
  "high_impact_low_freq papers =
     sort_key (\<lambda>t. - avg_citations t)
       (concat (map (\<lambda>(kw, cites).
           if 2 \<le> length cites
              \<and> 10 < (of_int (sum_list cites) :: rat) / of_nat (length cites)
              \<and> counter_get (keyword_freq papers) kw < 5
           then [\<lparr>potential_keyword = kw,
                   avg_citations = of_int (sum_list cites) / of_nat (length cites),
                   frequency = counter_get (keyword_freq papers) kw\<rparr>]
           else [])
         (keyword_citations papers)))"

definition emerging_tech :: "string list" where
  "emerging_tech =
     [''generative ai'', ''chatgpt'', ''llm'', ''metaverse'', ''blockchain'', ''iot'',
      ''digital twin'']"

record gap =
  gap_id :: nat
  gap_title :: string
  gap_description :: string
  source_count :: nat
  gap_keywords :: "string list"
  opportunity :: string
  potential_topics :: "potential list option"

definition future_gap :: "paper list \<Rightarrow> gap list" where
  "future_gap papers =
     (let common_future = common_words (themes future_research papers)
      in if common_future = [] then []
         else [\<lparr>gap_id = 1, gap_title = ''Methodological Advancement'',
                 gap_description =
                   ''Multiple studies suggest future research should address: ''
                   @ join '', '' (take 5 common_future),
                 source_count = length (filter (\<lambda>p. has_text (future_research p)) papers),
                 gap_keywords = take 10 common_future,
                 opportunity = ''Consider developing new methodological approaches or frameworks addressing these areas.'',
                 potential_topics = None\<rparr>])"

definition limitations_gap :: "paper list \<Rightarrow> gap list" where
  "limitations_gap papers =
     (let common_limitations = common_words (themes limitations papers)
      in if common_limitations = [] then []
         else [\<lparr>gap_id = 2, gap_title = ''Addressing Current Limitations'',
                 gap_description =
                   ''Common limitations across studies include: ''
                   @ join '', '' (take 5 common_limitations),
                 source_count = length (filter (\<lambda>p. has_text (limitations p)) papers),
                 gap_keywords = take 10 common_limitations,
                 opportunity = ''Design studies that specifically overcome these common methodological limitations.'',
                 potential_topics = None\<rparr>])"

definition high_impact_gap :: "paper list \<Rightarrow> gap list" where
  "high_impact_gap papers =
     (let top_potential = take 5 (high_impact_low_freq papers)
      in if high_impact_low_freq papers = [] then []
         else [\<lparr>gap_id = 3, gap_title = ''High-Impact Underexplored Topics'',
                 gap_description =
                   ''Topics with high citation impact but low publication frequency: ''
                   @ join '', '' (map potential_keyword top_potential),
                 source_count = sum_list (map frequency top_potential),
                 gap_keywords = map potential_keyword top_potential,
                 opportunity = ''These topics show high academic interest but limited coverage - prime opportunities for new contributions.'',
                 potential_topics = Some top_potential\<rparr>])"

definition emerging_gap :: "paper list \<Rightarrow> gap list" where
  "emerging_gap papers =
     (let tech_gaps = filter (\<lambda>tech. counter_get (keyword_freq papers) tech < 10) emerging_tech
      in if tech_gaps = [] then []
         else [\<lparr>gap_id = 4, gap_title = ''Emerging Technology Applications'',
                 gap_description =
                   ''Cutting-edge technologies with limited tourism research coverage: ''
                   @ join '', '' (take 5 tech_gaps),
                 source_count = sum_list (map (counter_get (keyword_freq papers)) tech_gaps),
                 gap_keywords = tech_gaps,
                 opportunity = ''Apply these emerging technologies to tourism contexts for innovative research contributions.'',
                 potential_topics = None\<rparr>])"

definition identify_research_gaps :: "paper list \<Rightarrow> gap list" where
  "identify_research_gaps papers =
     future_gap papers @ limitations_gap papers @ high_impact_gap papers @ emerging_gap papers"

text \<open>The Emerging Technology gap when no technology term occurs in the corpus.\<close>

definition untouched_emerging_gap :: gap where
  "untouched_emerging_gap =
     \<lparr>gap_id = 4, gap_title = ''Emerging Technology Applications'',
      gap_description = ''Cutting-edge technologies with limited tourism research coverage: generative ai, chatgpt, llm, metaverse, blockchain'',
      source_count = 0,
      gap_keywords = emerging_tech,
      opportunity = ''Apply these emerging technologies to tourism contexts for innovative research contributions.'',
      potential_topics = None\<rparr>"

text \<open>A record with neither narrative text nor technology terms, and a record whose only
  future-research excerpt uses one word twice.\<close>

definition plain_paper :: paper where
  "plain_paper =
     \<lparr>year = Some 2024, all_keywords = Some [''tourism'', ''hotel''], keywords_normalized = None,
      keywords = None, abstract_tokens = None, limitations = Some [],
      future_research = Some [], citations = Some 3\<rparr>"

definition repeating_paper :: paper where
  "repeating_paper =
     \<lparr>year = Some 2024, all_keywords = Some [], keywords_normalized = None,
      keywords = None, abstract_tokens = None, limitations = Some [],
      future_research =
        Some ''explore smart tourism adoption and rural tourism recovery across regions'',
      citations = Some 3\<rparr>"

section \<open>Tokenization\<close>

text \<open>
  \<^verbatim>\<open>TextProcessor._tokenize\<close> (\<^verbatim>\<open>src/modules/text_processor.py\<close>) with its five constant
  tables, in the order of the source. Texts are ASCII: a character above 127 is left alone by
  \<open>lower\<close> and is not a word character here, while Python decides both by Unicode category.
\<close>

definition stopwords :: "string list" where
  "stopwords =
     [''a'', ''an'', ''and'', ''are'', ''as'', ''at'', ''be'', ''by'', ''for'', ''from'',
      ''has'', ''have'', ''in'', ''is'', ''it'', ''its'', ''of'', ''on'', ''or'', ''that'',
      ''the'', ''this'', ''to'', ''was'', ''were'', ''will'', ''with'', ''which'', ''can'',
      ''could'', ''do'', ''does'', ''did'', ''done'', ''been'', ''being'', ''but'', ''if'',
      ''not'', ''no'', ''such'', ''than'', ''these'', ''those'', ''then'', ''there'',
      ''their'', ''they'', ''them'', ''through'', ''we'', ''our'', ''what'', ''when'',
      ''where'', ''who'', ''how'', ''why'', ''would'', ''should'', ''may'', ''might'',
      ''must'', ''shall'', ''also'', ''more'', ''most'', ''much'', ''many'', ''some'', ''any'',
      ''all'', ''both'', ''each'', ''few'', ''other'', ''over'', ''own'', ''same'', ''so'',
      ''too'', ''very'', ''just'', ''only'', ''now'', ''here'', ''however'', ''therefore'',
      ''thus'', ''although'', ''because'', ''since'', ''while'', ''between'', ''among'',
      ''during'', ''before'', ''after'', ''above'', ''below'', ''under'', ''within'',
      ''without'', ''about'', ''into'', ''onto'', ''upon'', ''per'', ''via'', ''etc'', ''ie'',
      ''eg'', ''i'', ''me'', ''my'', ''you'', ''your'', ''he'', ''him'', ''his'', ''she'',
      ''her'', ''one'', ''two'', ''three'', ''first'', ''second'', ''third'', ''well'', ''yet'']"

definition academic_stopwords :: "string list" where
  "academic_stopwords =
     [''study'', ''research'', ''paper'', ''article'', ''results'', ''findings'', ''analysis'',
      ''data'', ''method'', ''methods'', ''approach'', ''model'', ''using'', ''based'',
      ''propose'', ''proposed'', ''show'', ''shows'', ''suggest'', ''suggests'', ''indicate'',
      ''indicates'', ''examine'', ''examines'', ''explore'', ''explores'', ''investigate'',
      ''investigates'', ''aim'', ''aims'', ''objective'', ''purpose'', ''contribution'',
      ''literature'', ''review'', ''framework'', ''theory'', ''theoretical'', ''empirical'',
      ''quantitative'', ''qualitative'', ''sample'', ''samples'', ''respondent'',
      ''respondents'', ''participant'', ''participants'', ''significant'', ''significantly'',
      ''effect'', ''effects'', ''impact'', ''impacts'', ''influence'', ''influences'',
      ''relationship'', ''relationships'', ''factor'', ''factors'', ''variable'',
      ''variables'', ''hypothesis'', ''hypotheses'', ''conclusion'', ''conclusions'',
      ''implication'', ''implications'', ''limitation'', ''limitations'', ''future'',
      ''direction'', ''directions'']"

definition domain_terms :: "string list" where
  "domain_terms =
     [''tourism'', ''tourist'', ''tourists'', ''travel'', ''traveler'', ''travelers'',
      ''destination'', ''destinations'', ''hotel'', ''hotels'', ''hospitality'',
      ''accommodation'', ''airline'', ''airlines'', ''attraction'', ''attractions'',
      ''experience'', ''experiences'', ''satisfaction'', ''loyalty'', ''motivation'',
      ''sustainable'', ''sustainability'', ''eco-tourism'', ''ecotourism'', ''cultural'',
      ''heritage'', ''authenticity'', ''wellness'', ''medical'', ''dark tourism'',
      ''adventure'', ''rural'', ''urban'', ''coastal'', ''airbnb'', ''sharing economy'',
      ''platform'', ''online'', ''digital'', ''smart tourism'', ''smart destination'', ''iot'',
      ''big data'', ''virtual reality'', ''vr'', ''augmented reality'', ''ar'', ''metaverse'',
      ''artificial intelligence'', ''ai'', ''machine learning'', ''ml'', ''generative ai'',
      ''chatgpt'', ''llm'', ''chatbot'', ''robot'', ''service quality'', ''servicescape'',
      ''service recovery'', ''word of mouth'', ''wom'', ''ewom'', ''social media'',
      ''instagram'', ''influencer'', ''ugc'', ''review'', ''reviews'', ''rating'', ''ratings'',
      ''booking'', ''reservation'', ''ota'', ''expedia'', ''tripadvisor'', ''covid'',
      ''pandemic'', ''recovery'', ''resilience'', ''crisis'', ''overtourism'',
      ''undertourism'', ''gentrification'', ''carrying capacity'']"

definition phrase_mapping :: "(string \<times> string) list" where
  "phrase_mapping =
     [(''artificial intelligence'', ''ai''), (''virtual reality'', ''vr''),
      (''augmented reality'', ''ar''), (''machine learning'', ''ml''),
      (''internet of things'', ''iot''), (''big data analytics'', ''big data''),
      (''word of mouth'', ''wom''), (''electronic word of mouth'', ''ewom''),
      (''user generated content'', ''ugc''), (''online travel agency'', ''ota''),
      (''customer satisfaction'', ''satisfaction''),
      (''tourist satisfaction'', ''satisfaction''), (''service quality'', ''service quality''),
      (''sustainable tourism'', ''sustainable tourism''), (''eco tourism'', ''ecotourism''),
      (''smart tourism'', ''smart tourism''), (''sharing economy'', ''sharing economy''),
      (''generative artificial intelligence'', ''generative ai''),
      (''large language model'', ''llm''), (''large language models'', ''llm'')]"

definition stem_mapping :: "(string \<times> string) list" where
  "stem_mapping =
     [(''tourists'', ''tourist''), (''travelers'', ''traveler''),
      (''destinations'', ''destination''), (''hotels'', ''hotel''),
      (''experiences'', ''experience''), (''attractions'', ''attraction''),
      (''reviews'', ''review''), (''ratings'', ''rating''), (''booking'', ''booking''),
      (''bookings'', ''booking'')]"

text \<open>\<^verbatim>\<open>text.replace(old, new)\<close>: every occurrence of \<open>old\<close>, from the left, without overlap.
  The patterns of the phrase table are not empty; an empty pattern leaves the text as it is
  here.\<close>

function replace_all :: "string \<Rightarrow> string \<Rightarrow> string \<Rightarrow> string" where
  "replace_all old new [] = []"
| "replace_all old new (c # cs) =
     (if old \<noteq> [] \<and> take (length old) (c # cs) = old
      then new @ replace_all old new (drop (length old) (c # cs))
      else c # replace_all old new cs)"
  by pat_completeness auto
termination
  by (relation "measure (\<lambda>(old, new, text). length text)") auto

definition space_to_underscore :: "string \<Rightarrow> string" where
  "space_to_underscore s = map (\<lambda>c. if c = CHR '' '' then CHR ''_'' else c) s"

definition underscore_to_space :: "string \<Rightarrow> string" where
  "underscore_to_space s = map (\<lambda>c. if c = CHR ''_'' then CHR '' '' else c) s"

definition apply_phrases :: "string \<Rightarrow> string" where
  "apply_phrases text =
     fold (\<lambda>(phrase, replacement) t. replace_all phrase (space_to_underscore replacement) t)
       phrase_mapping text"

text \<open>
  \<^verbatim>\<open>re.findall(r'\b[a-z][a-z0-9_\-]+\b', text)\<close>. A word character is a letter, a digit or
  the underscore; \<^verbatim>\<open>\b\<close> holds between a word character and a character that is none (or
  an end of the text).
\<close>

definition is_digit :: "char \<Rightarrow> bool" where
  "is_digit c = (c \<in> set ''0123456789'')"

definition is_word :: "char \<Rightarrow> bool" where
  "is_word c = (is_lower c \<or> is_upper c \<or> is_digit c \<or> c = CHR ''_'')"

definition in_class :: "char \<Rightarrow> bool" where
  "in_class c = (is_lower c \<or> is_digit c \<or> c = CHR ''_'' \<or> c = CHR ''-'')"

text \<open>The greedy \<^verbatim>\<open>[a-z0-9_\-]+\<close> takes the whole run of class characters and gives back
  characters until \<^verbatim>\<open>\b\<close> holds: \<open>longest_bounded run next_word\<close> is the longest non-empty
  prefix of the run that ends at a word boundary, where \<open>next_word\<close> tells whether the
  character after the run is a word character.\<close>

fun longest_bounded :: "string \<Rightarrow> bool \<Rightarrow> string option" where
  "longest_bounded [] next_word = None"
| "longest_bounded (c # cs) next_word =
     (case longest_bounded cs next_word of
        Some p \<Rightarrow> Some (c # p)
      | None \<Rightarrow>
          if is_word c \<noteq> (case cs of [] \<Rightarrow> next_word | d # ds \<Rightarrow> is_word d)
          then Some [c] else None)"

text \<open>The scan from the left; \<open>prev_word\<close> tells whether the character before the position
  is a word character. After a match the scan goes on behind it, otherwise one character
  further.\<close>

function findall_tokens :: "bool \<Rightarrow> string \<Rightarrow> string list" where
  "findall_tokens prev_word [] = []"
| "findall_tokens prev_word (c # cs) =
     (if \<not> prev_word \<and> is_lower c then
        (case longest_bounded (takeWhile in_class cs)
                (case dropWhile in_class cs of [] \<Rightarrow> False | d # ds \<Rightarrow> is_word d) of
           Some p \<Rightarrow> (c # p) # findall_tokens (is_word (last p)) (drop (length p) cs)
         | None \<Rightarrow> findall_tokens (is_word c) cs)
      else findall_tokens (is_word c) cs)"
  by pat_completeness auto
termination
  by (relation "measure (\<lambda>(prev_word, text). length text)") auto

definition isdigit :: "string \<Rightarrow> bool" where
  "isdigit s = (s \<noteq> [] \<and> (\<forall>c \<in> set s. is_digit c))"

text \<open>The body of the filter loop for one token: \<open>None\<close> when the token is skipped.\<close>

definition normalize_token :: "string \<Rightarrow> string option" where
  "normalize_token raw =
     (let token = underscore_to_space raw
      in if token \<in> set stopwords then None
         else if token \<in> set academic_stopwords \<and> token \<notin> set domain_terms then None
         else if length token < 2 then None
         else if isdigit token then None
         else Some (case map_of stem_mapping token of Some stem \<Rightarrow> stem | None \<Rightarrow> token))"

fun filter_tokens :: "string list \<Rightarrow> string list" where
  "filter_tokens [] = []"
| "filter_tokens (raw # rest) =
     (case normalize_token raw of
        None \<Rightarrow> filter_tokens rest
      | Some token \<Rightarrow> token # filter_tokens rest)"

definition tokenize :: "string \<Rightarrow> string list" where
  "tokenize text =
     (if text = [] then []
      else filter_tokens (findall_tokens False (apply_phrases (lower text))))"

text \<open>The text formed from a token sequence: \<^verbatim>\<open>' '.join(tokens)\<close>. A token sequence is
  normalized when each token has the shape of the token pattern without underscore, is kept by
  the filters and is left alone by the stem table; \<open>contains\<close> tells whether a phrase occurs
  in a text.\<close>

definition ascii :: "string \<Rightarrow> bool" where
  "ascii s = (\<forall>c \<in> set s. (of_char c :: nat) < 128)"

fun contains :: "string \<Rightarrow> string \<Rightarrow> bool" where
  "contains old [] = (old = [])"
| "contains old (c # cs) = (take (length old) (c # cs) = old \<or> contains old cs)"

definition plain_char :: "char \<Rightarrow> bool" where
  "plain_char c = (is_lower c \<or> is_digit c \<or> c = CHR ''-'')"

definition token_shape :: "string \<Rightarrow> bool" where
  "token_shape t =
     (case t of
        [] \<Rightarrow> False
      | c # p \<Rightarrow> is_lower c \<and> p \<noteq> [] \<and> (\<forall>d \<in> set p. plain_char d)
                \<and> (is_lower (last p) \<or> is_digit (last p)))"

definition normalized_token :: "string \<Rightarrow> bool" where
  "normalized_token t =
     (token_shape t
      \<and> t \<notin> set stopwords
      \<and> \<not> (t \<in> set academic_stopwords \<and> t \<notin> set domain_terms)
      \<and> (case map_of stem_mapping t of None \<Rightarrow> True | Some stem \<Rightarrow> stem = t))"

text \<open>What a match of the token pattern looks like in a text without upper-case letters.\<close>

definition no_upper :: "string \<Rightarrow> bool" where
  "no_upper s = (\<forall>c \<in> set s. \<not> is_upper c)"

definition raw_shape :: "string \<Rightarrow> bool" where
  "raw_shape raw =
     (case raw of
        [] \<Rightarrow> False
      | c # p \<Rightarrow> is_lower c \<and> p \<noteq> [] \<and> (\<forall>d \<in> set p. in_class d) \<and> is_word (last p))"

definition alias_free :: "string \<Rightarrow> bool" where
  "alias_free text = (\<forall>phrase \<in> set (map fst phrase_mapping). \<not> contains phrase text)"

section \<open>Normalization of records on a heap\<close>

text \<open>
  \<^verbatim>\<open>TextProcessor.process_papers\<close> works on dictionaries and lists, which are objects with an
  identity: the input list holds references to the input dictionaries, and a dictionary holds
  references to its lists. The heap is the list of all objects, an address is an index in it,
  and a new object is put at the end. Values are \<^verbatim>\<open>None\<close>, booleans, integers, strings (which
  Python cannot change) and references.
\<close>

type_synonym addr = nat

datatype pyval = VNone | VBool bool | VInt int | VStr string | VRef addr

datatype pyobj = ODict "(string \<times> pyval) list" | OList "pyval list"

type_synonym heap = "pyobj list"

definition lookup :: "heap \<Rightarrow> addr \<Rightarrow> pyobj option" where
  "lookup h a = (if a < length h then Some (h ! a) else None)"

definition dict_at :: "heap \<Rightarrow> addr \<Rightarrow> (string \<times> pyval) list option" where
  "dict_at h a = (case lookup h a of Some (ODict d) \<Rightarrow> Some d | _ \<Rightarrow> None)"

definition list_at :: "heap \<Rightarrow> addr \<Rightarrow> pyval list option" where
  "list_at h a = (case lookup h a of Some (OList xs) \<Rightarrow> Some xs | _ \<Rightarrow> None)"

text \<open>\<^verbatim>\<open>d[k] = v\<close> on the dictionary at \<open>b\<close>, \<^verbatim>\<open>xs.append(v)\<close> on the list at \<open>r\<close>, and a new
  list object.\<close>

fun dict_set :: "string \<Rightarrow> pyval \<Rightarrow> (string \<times> pyval) list \<Rightarrow> (string \<times> pyval) list" where
  "dict_set k v [] = [(k, v)]"
| "dict_set k v ((k', v') # rest) =
     (if k = k' then (k', v) # rest else (k', v') # dict_set k v rest)"

definition store :: "addr \<Rightarrow> string \<Rightarrow> pyval \<Rightarrow> heap \<Rightarrow> heap" where
  "store b k v h =
     (case dict_at h b of Some d \<Rightarrow> h[b := ODict (dict_set k v d)] | None \<Rightarrow> h)"

definition append_at :: "addr \<Rightarrow> pyval \<Rightarrow> heap \<Rightarrow> heap" where
  "append_at r v h =
     (case list_at h r of Some xs \<Rightarrow> h[r := OList (xs @ [v])] | None \<Rightarrow> h)"

definition new_list :: "pyval list \<Rightarrow> heap \<Rightarrow> heap \<times> pyval" where
  "new_list xs h = (h @ [OList xs], VRef (length h))"

text \<open>\<^verbatim>\<open>d.get(k)\<close>, truthiness, and the elements a \<^verbatim>\<open>for\<close> loop or \<^verbatim>\<open>set(...)\<close> reads from a
  value (the characters of a string, the elements of a list, the keys of a dictionary).\<close>

definition get_field :: "heap \<Rightarrow> addr \<Rightarrow> string \<Rightarrow> pyval" where
  "get_field h a k =
     (case dict_at h a of
        None \<Rightarrow> VNone
      | Some d \<Rightarrow> (case map_of d k of None \<Rightarrow> VNone | Some v \<Rightarrow> v))"

definition truthy :: "heap \<Rightarrow> pyval \<Rightarrow> bool" where
  "truthy h v =
     (case v of
        VNone \<Rightarrow> False
      | VBool b \<Rightarrow> b
      | VInt n \<Rightarrow> n \<noteq> 0
      | VStr s \<Rightarrow> s \<noteq> []
      | VRef r \<Rightarrow> (case lookup h r of
                     Some (OList xs) \<Rightarrow> xs \<noteq> []
                   | Some (ODict d) \<Rightarrow> d \<noteq> []
                   | None \<Rightarrow> False))"

definition iterate :: "heap \<Rightarrow> pyval \<Rightarrow> py_error + pyval list" where
  "iterate h v =
     (case v of
        VStr s \<Rightarrow> Inr (map (\<lambda>c. VStr [c]) s)
      | VRef r \<Rightarrow> (case lookup h r of
                     Some (OList xs) \<Rightarrow> Inr xs
                   | Some (ODict d) \<Rightarrow> Inr (map (\<lambda>(k, v). VStr k) d)
                   | None \<Rightarrow> Inl TypeError)
      | _ \<Rightarrow> Inl TypeError)"

text \<open>The elements of \<^verbatim>\<open>set(v)\<close>: a list or a dictionary among them is not hashable.\<close>

definition hashable :: "pyval \<Rightarrow> bool" where
  "hashable v = (case v of VRef r \<Rightarrow> False | _ \<Rightarrow> True)"

definition set_elements :: "heap \<Rightarrow> pyval \<Rightarrow> py_error + pyval list" where
  "set_elements h v =
     (case iterate h v of
        Inl e \<Rightarrow> Inl e
      | Inr xs \<Rightarrow> if \<forall>x \<in> set xs. hashable x then Inr xs else Inl TypeError)"

text \<open>
  The helpers that take a string and return a string built by regular expressions
  (\<^verbatim>\<open>_clean_text\<close>, \<^verbatim>\<open>_extract_limitations\<close>, \<^verbatim>\<open>_extract_future_research\<close>) and the parsing
  of a string by \<^verbatim>\<open>int\<close> are parameters: they read no object and write none.
\<close>

record tools =
  clean_text :: "string \<Rightarrow> string"
  extract_limitations :: "string \<Rightarrow> string"
  extract_future_research :: "string \<Rightarrow> string"
  int_of_string :: "string \<Rightarrow> int option"

text \<open>\<^verbatim>\<open>_extract_keywords_from_text\<close> with \<^verbatim>\<open>top_n = 10\<close>.\<close>

definition extract_keywords_from_text :: "string \<Rightarrow> string list" where
  "extract_keywords_from_text s =
     (let tokens = tokenize s;
          freq = counter_update tokens [];
          domain_freq = counter_update (filter (\<lambda>t. t \<in> set domain_terms) tokens) [];
          result = map fst (most_common_n 5 domain_freq)
      in take 10 (fold (\<lambda>(token, n) result.
                          if token \<notin> set result then result @ [token] else result)
                    (most_common_n 10 freq) result))"

text \<open>\<^verbatim>\<open>_normalize_keywords\<close>: the loop body for a string, then the loop; an element that is
  true and no string has no \<^verbatim>\<open>lower\<close>.\<close>

definition strip :: "string \<Rightarrow> string" where
  "strip s = rev (dropWhile is_space (rev (dropWhile is_space s)))"

definition normalize_keyword :: "string \<Rightarrow> string option" where
  "normalize_keyword s =
     (let kw = strip (lower s);
          kw = filter (\<lambda>c. is_word c \<or> is_space c \<or> c = CHR ''-'') kw;
          kw = (case map_of phrase_mapping kw of Some r \<Rightarrow> r | None \<Rightarrow> kw);
          kw = (case map_of stem_mapping kw of Some r \<Rightarrow> r | None \<Rightarrow> kw)
      in if kw \<in> set stopwords \<or> kw \<in> set academic_stopwords then None
         else if kw \<noteq> [] \<and> 2 \<le> length kw then Some kw
         else None)"

fun normalize_keywords :: "heap \<Rightarrow> pyval list \<Rightarrow> py_error + string list" where
  "normalize_keywords h [] = Inr []"
| "normalize_keywords h (kw # rest) =
     (if \<not> truthy h kw then normalize_keywords h rest
      else case kw of
             VStr s \<Rightarrow>
               (case normalize_keywords h rest of
                  Inl e \<Rightarrow> Inl e
                | Inr normalized \<Rightarrow>
                    Inr (case normalize_keyword s of
                           None \<Rightarrow> normalized
                         | Some k \<Rightarrow> k # normalized))
           | _ \<Rightarrow> Inl AttributeError)"

text \<open>\<^verbatim>\<open>int(v)\<close>.\<close>

definition py_int :: "tools \<Rightarrow> pyval \<Rightarrow> py_error + int" where
  "py_int t v =
     (case v of
        VInt n \<Rightarrow> Inr n
      | VBool b \<Rightarrow> Inr (if b then 1 else 0)
      | VStr s \<Rightarrow> (case int_of_string t s of Some n \<Rightarrow> Inr n | None \<Rightarrow> Inl ValueError)
      | _ \<Rightarrow> Inl TypeError)"

text \<open>
  \<^verbatim>\<open>_process_single_paper\<close>, statement by statement. \<open>a\<close> is the address of \<^verbatim>\<open>paper\<close>, \<open>b\<close> the
  address of \<^verbatim>\<open>processed\<close>. A step returns the heap it leaves and the exception it raises, if
  any. The iteration order of a set of values is the parameter \<open>it\<close>.
\<close>

type_synonym step = "heap \<Rightarrow> heap \<times> py_error option"

definition title_step :: "tools \<Rightarrow> addr \<Rightarrow> addr \<Rightarrow> step" where
  "title_step t a b h =
     (if truthy h (get_field h a ''title'') then
        (case get_field h a ''title'' of
           VStr s \<Rightarrow> (store b ''title_clean'' (VStr (clean_text t s)) h, None)
         | _ \<Rightarrow> (h, Some TypeError))
      else (h, None))"

definition abstract_step :: "tools \<Rightarrow> addr \<Rightarrow> addr \<Rightarrow> step" where
  "abstract_step t a b h =
     (if truthy h (get_field h a ''abstract'') then
        (case get_field h a ''abstract'' of
           VStr s \<Rightarrow>
             (let h1 = store b ''abstract_clean'' (VStr (clean_text t s)) h;
                  (h2, tokens) = new_list (map VStr (tokenize s)) h1;
                  h3 = store b ''abstract_tokens'' tokens h2;
                  (h4, kws) = new_list (map VStr (extract_keywords_from_text s)) h3;
                  h5 = store b ''abstract_keywords'' kws h4;
                  h6 = store b ''limitations'' (VStr (extract_limitations t s)) h5;
                  h7 = store b ''future_research'' (VStr (extract_future_research t s)) h6
              in (h7, None))
         | _ \<Rightarrow> (h, Some TypeError))
      else (h, None))"

definition keywords_step :: "(pyval list \<Rightarrow> pyval list) \<Rightarrow> addr \<Rightarrow> addr \<Rightarrow> step" where
  "keywords_step it a b h =
     (if truthy h (get_field h a ''keywords'') then
        (case iterate h (get_field h a ''keywords'') of
           Inl e \<Rightarrow> (h, Some e)
         | Inr elems \<Rightarrow>
             (case normalize_keywords h elems of
                Inl e \<Rightarrow> (h, Some e)
              | Inr normalized \<Rightarrow>
                  (let (h1, r) = new_list (it (map VStr normalized)) h
                   in (store b ''keywords_normalized'' r h1, None))))
      else
        (let (h1, r) = new_list [] h
         in (store b ''keywords_normalized'' r h1, None)))"

text \<open>\<^verbatim>\<open>processed.get(k, [])\<close> as the elements for a set: none when the key is absent.\<close>

definition field_elements :: "heap \<Rightarrow> addr \<Rightarrow> string \<Rightarrow> py_error + pyval list" where
  "field_elements h b k =
     (case dict_at h b of
        None \<Rightarrow> Inl TypeError
      | Some d \<Rightarrow> (case map_of d k of None \<Rightarrow> Inr [] | Some v \<Rightarrow> set_elements h v))"

definition all_keywords_step :: "(pyval list \<Rightarrow> pyval list) \<Rightarrow> addr \<Rightarrow> step" where
  "all_keywords_step it b h =
     (case field_elements h b ''keywords_normalized'' of
        Inl e \<Rightarrow> (h, Some e)
      | Inr xs \<Rightarrow>
          (case field_elements h b ''abstract_keywords'' of
             Inl e \<Rightarrow> (h, Some e)
           | Inr ys \<Rightarrow>
               (let (h1, r) = new_list (it (xs @ ys)) h
                in (store b ''all_keywords'' r h1, None))))"

definition year_step :: "tools \<Rightarrow> addr \<Rightarrow> addr \<Rightarrow> step" where
  "year_step t a b h =
     (if truthy h (get_field h a ''year'') then
        (case py_int t (get_field h a ''year'') of
           Inl e \<Rightarrow> (h, Some e)
         | Inr n \<Rightarrow> (store b ''year'' (VInt n) h, None))
      else (h, None))"

fun run_steps :: "step list \<Rightarrow> step" where
  "run_steps [] h = (h, None)"
| "run_steps (s # ss) h =
     (case s h of (h1, None) \<Rightarrow> run_steps ss h1 | (h1, Some e) \<Rightarrow> (h1, Some e))"

text \<open>\<^verbatim>\<open>processed = dict(paper)\<close> puts a new dictionary with the entries of \<^verbatim>\<open>paper\<close> on the
  heap; a value that is no dictionary has no \<^verbatim>\<open>get\<close>.\<close>

definition process_single_paper :: "tools \<Rightarrow> (pyval list \<Rightarrow> pyval list) \<Rightarrow> pyval \<Rightarrow> heap
    \<Rightarrow> heap \<times> (py_error + addr)" where
  "process_single_paper t it paper h =
     (case paper of
        VRef a \<Rightarrow>
          (case dict_at h a of
             None \<Rightarrow> (h, Inl AttributeError)
           | Some d \<Rightarrow>
               (let b = length h
                in case run_steps [title_step t a b, abstract_step t a b, keywords_step it a b,
                                   all_keywords_step it b, year_step t a b] (h @ [ODict d]) of
                     (h1, None) \<Rightarrow> (h1, Inr b)
                   | (h1, Some e) \<Rightarrow> (h1, Inl e)))
      | _ \<Rightarrow> (h, Inl AttributeError))"

text \<open>\<^verbatim>\<open>process_papers\<close>: the result list is a new object; an exception of
  \<^verbatim>\<open>_process_single_paper\<close> is caught and the paper skipped. The loop reads the elements of the
  input list; no statement of the loop writes to that list, so they are read once here.\<close>

definition process_one :: "tools \<Rightarrow> (pyval list \<Rightarrow> pyval list) \<Rightarrow> addr \<Rightarrow> pyval \<Rightarrow> heap \<Rightarrow> heap" where
  "process_one t it r paper h =
     (case process_single_paper t it paper h of
        (h1, Inr b) \<Rightarrow> if truthy h1 (VRef b) then append_at r (VRef b) h1 else h1
      | (h1, Inl e) \<Rightarrow> h1)"

definition process_papers :: "tools \<Rightarrow> (pyval list \<Rightarrow> pyval list) \<Rightarrow> pyval \<Rightarrow> heap
    \<Rightarrow> heap \<times> (py_error + addr)" where
  "process_papers t it papers h =
     (let r = length h;
          h0 = h @ [OList []]
      in case iterate h0 papers of
           Inl e \<Rightarrow> (h0, Inl e)
         | Inr elems \<Rightarrow> (fold (process_one t it r) elems h0, Inr r))"

text \<open>A heap keeps its first \<open>n\<close> objects.\<close>

definition preserves :: "nat \<Rightarrow> heap \<Rightarrow> heap \<Rightarrow> bool" where
  "preserves n h h' = (length h \<le> length h' \<and> take n h' = take n h)"

text \<open>A heap with two records and the list of them; the second has a year that \<^verbatim>\<open>int\<close>
  rejects. The string helpers of the example leave the text as it is.\<close>

definition example_tools :: tools where
  "example_tools =
     \<lparr>clean_text = (\<lambda>s. s), extract_limitations = (\<lambda>s. []), extract_future_research = (\<lambda>s. []),
      int_of_string = (\<lambda>s. if s = ''2024'' then Some 2024 else None)\<rparr>"

definition example_heap :: heap where
  "example_heap =
     [OList [VStr ''Smart Tourism'', VStr ''Hotels''],
      ODict [(''title'', VStr ''Smart hotels''), (''abstract'', VStr ''Tourists enjoy smart tourism in hotels.''),
             (''keywords'', VRef 0), (''year'', VStr ''2024'')],
      ODict [(''title'', VStr ''Untitled''), (''year'', VStr ''n.d.'')],
      OList [VRef 1, VRef 2]]"


section \<open>Properties of counters\<close>

lemma counter_add_keys: "fst ` set (counter_add k n c) = insert k (fst ` set c)"
  by (induction c) (force split: if_splits)+

lemma counter_add_distinct: "distinct (map fst c) \<Longrightarrow> distinct (map fst (counter_add k n c))"
  by (induction c) (auto simp: counter_add_keys)

lemma counter_get_add: "counter_get (counter_add k n c) k' = counter_get c k' + (if k = k' then n else 0)"
  by (induction c) (auto simp: counter_get_def)

lemma counter_update_distinct: "distinct (map fst c) \<Longrightarrow> distinct (map fst (counter_update ks c))"
  unfolding counter_update_def by (induction ks arbitrary: c) (auto simp: counter_add_distinct)

lemma counter_update_counts_distinct:
  "distinct (map fst c) \<Longrightarrow> distinct (map fst (counter_update_counts m c))"
  unfolding counter_update_counts_def
  by (induction m arbitrary: c) (auto simp: counter_add_distinct)

lemma window_counts_distinct_aux:
  "distinct (map fst c) \<Longrightarrow>
   distinct (map fst (fold (\<lambda>y c. counter_update_counts (yearly_get yearly y) c) ys c))"
  by (induction ys arbitrary: c) (auto simp: counter_update_counts_distinct)

lemma window_counts_distinct: "distinct (map fst (window_counts yearly ys))"
  unfolding window_counts_def by (rule window_counts_distinct_aux) simp

lemma yearly_update_keys: "fst ` set (yearly_update y ks yk) = insert y (fst ` set yk)"
  by (induction yk) (force split: if_splits)+

lemma yearly_update_distinct:
  "distinct (map fst yk) \<Longrightarrow> distinct (map fst (yearly_update y ks yk))"
  by (induction yk) (auto simp: yearly_update_keys)

lemma yearly_fold_keys:
  "fst ` set (fold (yearly_step it) papers yk) = fst ` set yk \<union> set (known_years papers)"
  by (induction papers arbitrary: yk)
     (auto simp: yearly_step_def known_years_def yearly_update_keys split: option.splits)

lemma yearly_fold_distinct:
  "distinct (map fst yk) \<Longrightarrow> distinct (map fst (fold (yearly_step it) papers yk))"
  by (induction papers arbitrary: yk)
     (auto simp: yearly_step_def yearly_update_distinct split: option.splits)

lemma length_by_year:
  "length (analyze_keywords_by_year it papers) = card (set (known_years papers))"
proof -
  let ?yk = "fold (yearly_step it) papers []"
  have d: "distinct (map fst ?yk)" by (rule yearly_fold_distinct) simp
  have "set (map fst ?yk) = set (known_years papers)"
    using yearly_fold_keys [of it papers "[]"] by simp
  then have "card (set (known_years papers)) = length (map fst ?yk)"
    using distinct_card [OF d] by simp
  then show ?thesis by (simp add: analyze_keywords_by_year_def Let_def)
qed


section \<open>Burst detection\<close>

lemma set_order_remdups: "set_order remdups"
  by (simp add: set_order_def)

lemma set_order_pair:
  assumes "set_order it" "a \<noteq> b"
  shows "it [a, b] = [a, b] \<or> it [a, b] = [b, a]"
proof -
  have d: "distinct (it [a, b])" and s: "set (it [a, b]) = {a, b}"
    using assms(1) by (auto simp: set_order_def)
  have "length (it [a, b]) = 2"
    using distinct_card [OF d] s assms(2) by simp
  then obtain x y where xy: "it [a, b] = [x, y]"
    by (cases "it [a, b]"; simp; metis Suc_length_conv length_0_conv)
  with d s show ?thesis by (auto simp: doubleton_eq_iff)
qed

lemmas burst_eval =
  detect_burst_words_def recent_keywords_def earlier_keywords_def burst_years_def
  analyze_keywords_by_year_def yearly_step_def keywords_of_def items_def yearly_get_def
  window_counts_def counter_update_counts_def counter_update_def most_common_def
  recent_years_def earlier_years_def burst_sort_def burst_entry_def burst_kept_def
  computed_growth_def counter_get_def scenario_papers_def keyword_paper_def Let_def

text \<open>
  C3. A record collection with fewer than two distinct known years (every record of one year, or
  no record with a known year), equivalently a yearly table with fewer than two years, gives the
  empty burst list. The function has no raising branch: the division by \<open>earlier_freq\<close> is
  guarded, and the record type has no ill-typed field.
\<close>

theorem burst_few_years:
  assumes "length (analyze_keywords_by_year it papers) < 2 \<or> card (set (known_years papers)) < 2"
  shows "detect_burst_words it papers = []"
  using assms by (auto simp: detect_burst_words_def length_by_year)

theorem burst_few_years_witness:
  "card (set (known_years [keyword_paper (Some 2023) [''ai''], keyword_paper (Some 2023) [''vr''],
       keyword_paper None [''ai'']])) < 2
   \<and> detect_burst_words remdups [keyword_paper (Some 2023) [''ai''],
         keyword_paper (Some 2023) [''vr''], keyword_paper None [''ai'']] = []"
proof -
  have h: "card (set (known_years [keyword_paper (Some 2023) [''ai''],
      keyword_paper (Some 2023) [''vr''], keyword_paper None [''ai'']])) < 2"
    by (simp add: known_years_def keyword_paper_def)
  show ?thesis
    using h burst_few_years [of remdups "[keyword_paper (Some 2023) [''ai''],
      keyword_paper (Some 2023) [''vr''], keyword_paper None [''ai'']]"]
    by simp
qed

text \<open>
  C1 (amended). In the scenario with years 2023, 2023, 2025 the sorted years are 2023 and 2025;
  the recent window is the last two years, so it holds both, and the earlier window is the
  first year. \<open>vr\<close> is new with \<open>recent_freq = 1\<close> and reported growth 1; since 1 exceeds
  0.5 it is in the returned list. \<open>tourism\<close> has \<open>recent_freq = 2\<close>, \<open>earlier_freq = 1\<close>,
  growth 1, and is in the list too. This holds for every iteration order of the sets.
\<close>

theorem scenario_burst:
  assumes "set_order it"
  shows "recent_years (burst_years it scenario_papers) = [2023, 2025]
    \<and> earlier_years (burst_years it scenario_papers) = [2023]
    \<and> detect_burst_words it scenario_papers =
        [\<lparr>keyword = ''tourism'', recent_freq = 2, earlier_freq = 1, growth_rate = 1,
          is_new = False, trend = ''rising''\<rparr>,
         \<lparr>keyword = ''vr'', recent_freq = 1, earlier_freq = 0, growth_rate = 1,
          is_new = True, trend = ''rising''\<rparr>]"
proof -
  have a: "it [''ai'', ''tourism''] = [''ai'', ''tourism''] \<or> it [''ai'', ''tourism''] = [''tourism'', ''ai'']"
    using set_order_pair [OF assms, of "''ai''" "''tourism''"] by simp
  have b: "it [''ai'', ''satisfaction''] = [''ai'', ''satisfaction'']
         \<or> it [''ai'', ''satisfaction''] = [''satisfaction'', ''ai'']"
    using set_order_pair [OF assms, of "''ai''" "''satisfaction''"] by simp
  have c: "it [''vr'', ''tourism''] = [''vr'', ''tourism''] \<or> it [''vr'', ''tourism''] = [''tourism'', ''vr'']"
    using set_order_pair [OF assms, of "''vr''" "''tourism''"] by simp
  from a b c show ?thesis
    by (elim disjE) (simp_all add: burst_eval)
qed

theorem scenario_burst_witness:
  "set_order remdups
   \<and> recent_years (burst_years remdups scenario_papers) = [2023, 2025]
   \<and> earlier_years (burst_years remdups scenario_papers) = [2023]
   \<and> map keyword (detect_burst_words remdups scenario_papers) = [''tourism'', ''vr'']"
  using scenario_burst [OF set_order_remdups] set_order_remdups by simp

text \<open>The scenario as the claim words it fails in each of its parts.\<close>

theorem scenario_burst_counterexample:
  "recent_years (burst_years remdups scenario_papers) \<noteq> [2025]
   \<and> ''vr'' \<in> keyword ` set (detect_burst_words remdups scenario_papers)
   \<and> counter_get (earlier_keywords remdups scenario_papers) ''tourism'' \<noteq> 2
   \<and> counter_get (recent_keywords remdups scenario_papers) ''tourism'' \<noteq> 0
   \<and> ''tourism'' \<in> keyword ` set (detect_burst_words remdups scenario_papers)"
  by (simp add: burst_eval)

lemma set_detect_burst_words:
  "set (detect_burst_words it papers) =
     (if length (analyze_keywords_by_year it papers) < 2 then {}
      else {burst_entry k rf (counter_get (earlier_keywords it papers) k) | k rf.
              (k, rf) \<in> set (recent_keywords it papers)
              \<and> burst_kept rf (counter_get (earlier_keywords it papers) k)})"
  by (auto simp: detect_burst_words_def burst_sort_def Let_def)

lemma burst_sorted:
  "sorted (map (\<lambda>b. (- growth_rate b, - int (recent_freq b))) (detect_burst_words it papers))"
  by (simp add: detect_burst_words_def burst_sort_def Let_def)

lemma burst_kept_explicit:
  "burst_kept rf ef \<longleftrightarrow>
     (ef = 0 \<and> (3 \<le> rf \<or> (1 / 2 :: rat) < of_nat rf))
     \<or> (ef \<noteq> 0 \<and> (1 / 2 :: rat) < (of_nat rf - of_nat ef) / of_nat ef)"
  by (auto simp: burst_kept_def computed_growth_def)

lemma burst_entry_growth:
  "growth_rate (burst_entry k rf ef)
     = (if ef = 0 then (if 3 \<le> rf then 10 else of_nat rf)
        else (of_nat rf - of_nat ef) / of_nat ef)"
  by (simp add: burst_entry_def computed_growth_def)

text \<open>
  C2. Every returned entry is the entry of a keyword of the recent window, with its two counts;
  it is new exactly when \<open>earlier_freq = 0\<close>, and then the reported growth is 10 when
  \<open>recent_freq \<ge> 3\<close> and \<open>recent_freq\<close> itself otherwise; for a keyword that is not new the
  reported growth is \<open>(recent_freq - earlier_freq) / earlier_freq\<close>. A keyword of the recent
  window has an entry if and only if its growth is above one half, where the growth of a
  new keyword is infinite from \<open>recent_freq = 3\<close> on and \<open>recent_freq\<close> below, or it is new
  with \<open>recent_freq \<ge> 3\<close>. The list is in descending order of reported growth, ties in
  descending order of \<open>recent_freq\<close>.
\<close>

theorem burst_entries:
  "(\<forall>b \<in> set (detect_burst_words it papers).
      (keyword b, recent_freq b) \<in> set (recent_keywords it papers)
      \<and> earlier_freq b = counter_get (earlier_keywords it papers) (keyword b)
      \<and> is_new b = (earlier_freq b = 0)
      \<and> (earlier_freq b = 0 \<longrightarrow>
           growth_rate b = (if 3 \<le> recent_freq b then 10 else of_nat (recent_freq b)))
      \<and> (earlier_freq b \<noteq> 0 \<longrightarrow>
           growth_rate b
             = (of_nat (recent_freq b) - of_nat (earlier_freq b)) / of_nat (earlier_freq b)))
   \<and> (\<forall>(k, rf) \<in> set (recent_keywords it papers).
        2 \<le> length (analyze_keywords_by_year it papers) \<longrightarrow>
        ((\<exists>b \<in> set (detect_burst_words it papers). keyword b = k)
          \<longleftrightarrow> (counter_get (earlier_keywords it papers) k = 0
                \<and> (3 \<le> rf \<or> (1 / 2 :: rat) < of_nat rf))
              \<or> (counter_get (earlier_keywords it papers) k \<noteq> 0
                  \<and> (1 / 2 :: rat)
                      < (of_nat rf - of_nat (counter_get (earlier_keywords it papers) k))
                        / of_nat (counter_get (earlier_keywords it papers) k))
              \<or> (counter_get (earlier_keywords it papers) k = 0 \<and> 3 \<le> rf)))
   \<and> (\<forall>i j. i < j \<and> j < length (detect_burst_words it papers) \<longrightarrow>
        growth_rate (detect_burst_words it papers ! j) < growth_rate (detect_burst_words it papers ! i)
        \<or> (growth_rate (detect_burst_words it papers ! j) = growth_rate (detect_burst_words it papers ! i)
            \<and> recent_freq (detect_burst_words it papers ! j) \<le> recent_freq (detect_burst_words it papers ! i)))"
proof (intro conjI ballI allI impI)
  fix b assume b: "b \<in> set (detect_burst_words it papers)"
  then obtain k rf where
    e: "b = burst_entry k rf (counter_get (earlier_keywords it papers) k)"
    and m: "(k, rf) \<in> set (recent_keywords it papers)"
    by (auto simp: set_detect_burst_words split: if_splits)
  have f: "keyword b = k" "recent_freq b = rf"
    "earlier_freq b = counter_get (earlier_keywords it papers) k"
    using e by (simp_all add: burst_entry_def)
  show "(keyword b, recent_freq b) \<in> set (recent_keywords it papers)"
    using f m by simp
  show "earlier_freq b = counter_get (earlier_keywords it papers) (keyword b)"
    using f by simp
  show "is_new b = (earlier_freq b = 0)"
    using e by (simp add: burst_entry_def)
  {
    assume "earlier_freq b = 0"
    then show "growth_rate b = (if 3 \<le> recent_freq b then 10 else of_nat (recent_freq b))"
      unfolding f(2) using f(3) by (simp add: e burst_entry_growth)
  }
  {
    assume "earlier_freq b \<noteq> 0"
    then show "growth_rate b
        = (of_nat (recent_freq b) - of_nat (earlier_freq b)) / of_nat (earlier_freq b)"
      unfolding f(2) using f(3) by (simp add: e burst_entry_growth)
  }
next
  fix x assume x: "x \<in> set (recent_keywords it papers)"
  obtain k rf where kr: "x = (k, rf)" by (cases x)
  have d: "distinct (map fst (recent_keywords it papers))"
    by (simp add: recent_keywords_def window_counts_distinct)
  have u: "rf' = rf" if "(k, rf') \<in> set (recent_keywords it papers)" for rf'
    using d x kr that by (meson eq_key_imp_eq_value)
  have "(\<exists>b \<in> set (detect_burst_words it papers). keyword b = k)
          \<longleftrightarrow> burst_kept rf (counter_get (earlier_keywords it papers) k)"
    if len: "2 \<le> length (analyze_keywords_by_year it papers)"
  proof
    assume "\<exists>b \<in> set (detect_burst_words it papers). keyword b = k"
    then obtain b where b: "b \<in> set (detect_burst_words it papers)" and kb: "keyword b = k"
      by blast
    from b len obtain k' rf' where
      e: "b = burst_entry k' rf' (counter_get (earlier_keywords it papers) k')"
      and m: "(k', rf') \<in> set (recent_keywords it papers)"
      and kept: "burst_kept rf' (counter_get (earlier_keywords it papers) k')"
      unfolding set_detect_burst_words by auto
    have "k' = k" using e kb by (simp add: burst_entry_def)
    with m u kept show "burst_kept rf (counter_get (earlier_keywords it papers) k)"
      by auto
  next
    assume kept: "burst_kept rf (counter_get (earlier_keywords it papers) k)"
    have "burst_entry k rf (counter_get (earlier_keywords it papers) k)
            \<in> set (detect_burst_words it papers)"
      unfolding set_detect_burst_words using len x kr kept by auto
    moreover have "keyword (burst_entry k rf (counter_get (earlier_keywords it papers) k)) = k"
      by (simp add: burst_entry_def)
    ultimately show "\<exists>b \<in> set (detect_burst_words it papers). keyword b = k"
      by blast
  qed
  then show "case x of (k, rf) \<Rightarrow>
        2 \<le> length (analyze_keywords_by_year it papers) \<longrightarrow>
        ((\<exists>b \<in> set (detect_burst_words it papers). keyword b = k)
          \<longleftrightarrow> (counter_get (earlier_keywords it papers) k = 0
                \<and> (3 \<le> rf \<or> (1 / 2 :: rat) < of_nat rf))
              \<or> (counter_get (earlier_keywords it papers) k \<noteq> 0
                  \<and> (1 / 2 :: rat)
                      < (of_nat rf - of_nat (counter_get (earlier_keywords it papers) k))
                        / of_nat (counter_get (earlier_keywords it papers) k))
              \<or> (counter_get (earlier_keywords it papers) k = 0 \<and> 3 \<le> rf))"
    unfolding kr burst_kept_explicit by auto
next
  fix i j assume ij: "i < j \<and> j < length (detect_burst_words it papers)"
  let ?r = "detect_burst_words it papers"
  let ?key = "\<lambda>b. (- growth_rate b, - int (recent_freq b))"
  have "map ?key ?r ! i \<le> map ?key ?r ! j"
    using burst_sorted [of it papers] ij by (intro sorted_nth_mono) auto
  then have "?key (?r ! i) \<le> ?key (?r ! j)" using ij by simp
  then show "growth_rate (?r ! j) < growth_rate (?r ! i)
        \<or> (growth_rate (?r ! j) = growth_rate (?r ! i) \<and> recent_freq (?r ! j) \<le> recent_freq (?r ! i))"
    by auto
qed

lemma burst_corpus_windows:
  "recent_keywords remdups burst_corpus
     = [(''hotel'', 3), (''ai'', 3), (''llm'', 3), (''covid'', 1), (''vr'', 1)]"
  "earlier_keywords remdups burst_corpus = [(''hotel'', 2), (''ai'', 1), (''covid'', 2)]"
  "length (analyze_keywords_by_year remdups burst_corpus) = 4"
  by code_simp+

lemma burst_corpus_result:
  "detect_burst_words remdups burst_corpus
     = [\<lparr>keyword = ''llm'', recent_freq = 3, earlier_freq = 0, growth_rate = 10,
          is_new = True, trend = ''rising''\<rparr>,
        \<lparr>keyword = ''ai'', recent_freq = 3, earlier_freq = 1, growth_rate = 2,
          is_new = False, trend = ''rising''\<rparr>,
        \<lparr>keyword = ''vr'', recent_freq = 1, earlier_freq = 0, growth_rate = 1,
          is_new = True, trend = ''rising''\<rparr>]"
  by code_simp

theorem burst_entries_witness:
  "2 \<le> length (analyze_keywords_by_year remdups burst_corpus)
   \<and> (''hotel'', 3) \<in> set (recent_keywords remdups burst_corpus)
   \<and> counter_get (earlier_keywords remdups burst_corpus) ''hotel'' = 2
   \<and> (of_nat 3 - of_nat 2) / of_nat 2 = (1 / 2 :: rat)
   \<and> ''hotel'' \<notin> keyword ` set (detect_burst_words remdups burst_corpus)
   \<and> (''covid'', 1) \<in> set (recent_keywords remdups burst_corpus)
   \<and> ''covid'' \<notin> keyword ` set (detect_burst_words remdups burst_corpus)
   \<and> (''ai'', 3) \<in> set (recent_keywords remdups burst_corpus)
   \<and> counter_get (earlier_keywords remdups burst_corpus) ''ai'' = 1
   \<and> map (\<lambda>b. (keyword b, recent_freq b, earlier_freq b, growth_rate b, is_new b))
        (detect_burst_words remdups burst_corpus)
       = [(''llm'', 3, 0, 10, True), (''ai'', 3, 1, 2, False), (''vr'', 1, 0, 1, True)]
   \<and> (0::nat) < 1 \<and> 1 < length (detect_burst_words remdups burst_corpus)"
  using burst_entries [of remdups burst_corpus]
  by (simp add: burst_corpus_result burst_corpus_windows counter_get_def)

section \<open>Per-year frequencies against the aggregate table\<close>

lemma counter_get_Nil: "counter_get [] k = 0"
  by (simp add: counter_get_def)


lemma counter_get_update:
  "counter_get (counter_update ks c) k = counter_get c k + count_list ks k"
  unfolding counter_update_def
  by (induction ks arbitrary: c) (auto simp: counter_get_add)



lemma agg_fold_distinct:
  "distinct (map fst c) \<Longrightarrow> distinct (map fst (fold (\<lambda>p c. counter_update (f p) c) papers c))"
  by (induction papers arbitrary: c) (auto simp: counter_update_distinct)

lemma agg_fold_get:
  "counter_get (fold (\<lambda>p c. counter_update (f p) c) papers c) k
     = counter_get c k + sum_list (map (\<lambda>p. count_list (f p) k) papers)"
  by (induction papers arbitrary: c) (auto simp: counter_get_update)












text \<open>The condition follows from the invariant of a normalized record, that \<^verbatim>\<open>all_keywords\<close>
  is the union of \<^verbatim>\<open>keywords_normalized\<close> and the keywords taken from the abstract; a record
  that was not normalized has no \<^verbatim>\<open>keywords_normalized\<close>.\<close>

lemma merged_keywords_truthy:
  "set (items (keywords_normalized p)) \<subseteq> set (items (all_keywords p)) \<Longrightarrow>
   truthy_list (keywords_normalized p) \<longrightarrow> truthy_list (all_keywords p)"
  by (cases "keywords_normalized p"; cases "all_keywords p") (auto simp: items_def)






text \<open>
  The condition cannot be dropped. \<^verbatim>\<open>analyze_keywords\<close> falls back on
  \<^verbatim>\<open>keywords_normalized\<close> before the raw keywords, and \<^verbatim>\<open>analyze_keywords_by_year\<close> has no
  such branch: for a record of 2020 with \<^verbatim>\<open>keywords_normalized = ['tourist']\<close>,
  \<^verbatim>\<open>keywords = ['Tourists']\<close> and no \<^verbatim>\<open>all_keywords\<close>, a shape that no function of the
  repository builds, the aggregate table counts \<open>tourist\<close> and the yearly table \<open>tourists\<close>.
\<close>

lemma unmerged_record_differs:
  "has_year unmerged_paper
   \<and> analyze_keywords remdups (filter has_year [unmerged_paper]) = [(''tourist'', 1)]
   \<and> analyze_keywords_by_year remdups [unmerged_paper] = [(2020, [(''tourists'', 1)])]
   \<and> counter_get (analyze_keywords remdups (filter has_year [unmerged_paper])) ''tourist'' = 1
   \<and> yearly_total (analyze_keywords_by_year remdups [unmerged_paper]) ''tourist'' = 0"
  by (simp add: has_year_def unmerged_paper_def analyze_keywords_def keywords_agg_def
      analyze_keywords_by_year_def yearly_step_def keywords_of_def items_def yearly_get_def
      counter_update_def most_common_def counter_get_def yearly_total_def lower_def
      lower_char_def Let_def)

section \<open>Co-occurrence network: edge weights\<close>

lemma count_sorted_pair_map:
  assumes "x \<notin> set xs" "distinct xs"
  shows "count_list (map (sorted_pair \<circ> Pair x) xs) (a, b)
           = (if a < b \<and> ((x = a \<and> b \<in> set xs) \<or> (x = b \<and> a \<in> set xs)) then 1 else 0)"
  using assms
proof (induction xs)
  case Nil
  then show ?case by simp
next
  case (Cons y ys)
  then show ?case
    by (auto simp: sorted_pair_def)
qed

lemma count_sorted_pairs:
  assumes "distinct xs"
  shows "count_list (map sorted_pair (pairs xs)) (a, b)
           = (if a < b \<and> a \<in> set xs \<and> b \<in> set xs then 1 else 0)"
  using assms
proof (induction xs)
  case Nil
  then show ?case by simp
next
  case (Cons x xs)
  then show ?case
    by (auto simp: count_sorted_pair_map)
qed


lemma counter_update_keys: "fst ` set (counter_update ks c) = fst ` set c \<union> set ks"
  unfolding counter_update_def
  by (induction ks arbitrary: c) (auto simp: counter_add_keys)

lemma agg_fold_keys:
  "fst ` set (fold (\<lambda>p c. counter_update (f p) c) papers c)
     = fst ` set c \<union> (\<Union>p \<in> set papers. set (f p))"
  by (induction papers arbitrary: c) (auto simp: counter_update_keys)

lemma counter_get_entry:
  "distinct (map fst c) \<Longrightarrow> (k, n) \<in> set c \<Longrightarrow> counter_get c k = n"
  by (simp add: counter_get_def)

lemma restricted_keywords_set:
  "set_order it \<Longrightarrow> set (restricted_keywords it tops p) = restricted_set it tops p"
  by (auto simp: restricted_keywords_def restricted_set_def set_order_def)

lemma restricted_keywords_distinct:
  "set_order it \<Longrightarrow> distinct (restricted_keywords it tops p)"
  by (simp add: restricted_keywords_def set_order_def)

lemma sum_list_indicator:
  "sum_list (map (\<lambda>p. if P p then 1 else 0) ps) = length (filter P ps)"
  by (induction ps) auto

lemma cooccurrence_entry:
  assumes so: "set_order it" and m: "((a, b), w) \<in> set (cooccurrence_counts it tops papers)"
  shows "a < b \<and> w = length (filter (\<lambda>p. a \<in> restricted_set it tops p
                                       \<and> b \<in> restricted_set it tops p) papers)"
proof -
  let ?f = "\<lambda>p. map sorted_pair (pairs (restricted_keywords it tops p))"
  let ?c = "cooccurrence_counts it tops papers"
  have c: "?c = fold (\<lambda>p c. counter_update (?f p) c) papers []"
    by (simp add: cooccurrence_counts_def)
  have d: "distinct (map fst ?c)" unfolding c by (rule agg_fold_distinct) simp
  have cnt: "count_list (?f p) (a, b)
               = (if a < b \<and> a \<in> restricted_set it tops p \<and> b \<in> restricted_set it tops p
                  then 1 else 0)" for p
    using count_sorted_pairs [OF restricted_keywords_distinct [OF so], of tops p a b]
    by (simp add: restricted_keywords_set [OF so])
  have "(a, b) \<in> fst ` set ?c" using m by force
  then obtain p where "p \<in> set papers" "(a, b) \<in> set (?f p)"
    unfolding c agg_fold_keys by auto
  then have "count_list (?f p) (a, b) \<noteq> 0" by (simp add: count_list_0_iff)
  then have ab: "a < b" unfolding cnt by (simp split: if_splits)
  have "w = counter_get ?c (a, b)" using counter_get_entry [OF d m] by simp
  also have "\<dots> = sum_list (map (\<lambda>p. count_list (?f p) (a, b)) papers)"
    unfolding c by (simp add: agg_fold_get counter_get_Nil)
  also have "\<dots> = length (filter (\<lambda>p. a \<in> restricted_set it tops p
                                       \<and> b \<in> restricted_set it tops p) papers)"
    unfolding cnt using ab by (simp add: sum_list_indicator)
  finally show ?thesis using ab by simp
qed

lemma network_edges_sorted:
  "sorted (map (\<lambda>e. - int (weight e)) (edges (build_cooccurrence_network it papers top_n)))"
  by (simp add: build_cooccurrence_network_def Let_def take_map [symmetric] sorted_wrt_take)

lemma network_edge_origin:
  assumes "e \<in> set (edges (build_cooccurrence_network it papers top_n))"
  shows "((source e, target e), weight e)
            \<in> set (cooccurrence_counts it (top_keywords it top_n papers) papers)
         \<and> 2 \<le> weight e"
proof -
  have "e \<in> set (map (\<lambda>((s, t), w). \<lparr>source = s, target = t, weight = w\<rparr>)
                 (filter (\<lambda>(pair, w). 2 \<le> w)
                    (cooccurrence_counts it (top_keywords it top_n papers) papers)))"
    using assms set_take_subset [of 200]
    by (fastforce simp: build_cooccurrence_network_def Let_def)
  then show ?thesis by auto
qed

text \<open>
  C5. In the graph of \<^verbatim>\<open>build_cooccurrence_network\<close>, for every iteration order of the sets:
  the weight of an edge is the number of records whose keyword set, restricted to the top
  keywords, holds both endpoints; it is at least 2; the endpoints are in ascending order; the
  edges are in descending order of weight, and there are at most 200.
\<close>

theorem cooccurrence_edges:
  assumes "set_order it"
  shows "(\<forall>e \<in> set (edges (build_cooccurrence_network it papers top_n)).
            weight e = length (filter (\<lambda>p.
                source e \<in> restricted_set it (top_keywords it top_n papers) p
                \<and> target e \<in> restricted_set it (top_keywords it top_n papers) p) papers)
            \<and> 2 \<le> weight e \<and> source e < target e)
       \<and> (\<forall>i j. i < j \<and> j < length (edges (build_cooccurrence_network it papers top_n)) \<longrightarrow>
            weight (edges (build_cooccurrence_network it papers top_n) ! j)
              \<le> weight (edges (build_cooccurrence_network it papers top_n) ! i))
       \<and> length (edges (build_cooccurrence_network it papers top_n)) \<le> 200"
proof (intro conjI ballI allI impI)
  fix e assume e: "e \<in> set (edges (build_cooccurrence_network it papers top_n))"
  from network_edge_origin [OF e] cooccurrence_entry [OF assms]
  show "weight e = length (filter (\<lambda>p.
                source e \<in> restricted_set it (top_keywords it top_n papers) p
                \<and> target e \<in> restricted_set it (top_keywords it top_n papers) p) papers)"
    and "2 \<le> weight e" and "source e < target e"
    by blast+
next
  let ?es = "edges (build_cooccurrence_network it papers top_n)"
  fix i j assume ij: "i < j \<and> j < length ?es"
  have "map (\<lambda>e. - int (weight e)) ?es ! i \<le> map (\<lambda>e. - int (weight e)) ?es ! j"
    using network_edges_sorted [of it papers top_n] ij by (intro sorted_nth_mono) auto
  then show "weight (?es ! j) \<le> weight (?es ! i)" using ij by simp
next
  show "length (edges (build_cooccurrence_network it papers top_n)) \<le> 200"
    by (simp add: build_cooccurrence_network_def Let_def)
qed


lemmas network_eval =
  build_cooccurrence_network_def top_keywords_def cooccurrence_counts_def
  restricted_keywords_def restricted_set_def analyze_keywords_def keywords_agg_def
  keywords_of_def items_def py_take_def sorted_pair_def counter_update_def most_common_def
  scenario_papers_def keyword_paper_def Let_def

theorem cooccurrence_edges_witness:
  "set_order remdups
   \<and> edges (build_cooccurrence_network remdups (scenario_papers @ scenario_papers) 50)
       = [\<lparr>source = ''ai'', target = ''tourism'', weight = 2\<rparr>,
          \<lparr>source = ''ai'', target = ''satisfaction'', weight = 2\<rparr>,
          \<lparr>source = ''tourism'', target = ''vr'', weight = 2\<rparr>]
   \<and> length (filter (\<lambda>p.
          ''ai'' \<in> restricted_set remdups
             (top_keywords remdups 50 (scenario_papers @ scenario_papers)) p
          \<and> ''tourism'' \<in> restricted_set remdups
             (top_keywords remdups 50 (scenario_papers @ scenario_papers)) p)
        (scenario_papers @ scenario_papers)) = 2"
  using cooccurrence_edges [OF set_order_remdups, of "scenario_papers @ scenario_papers" 50]
    set_order_remdups
  by (simp add: network_eval)

section \<open>Topic clustering: disjoint topics\<close>

lemma topic_members_fold:
  assumes "length tw \<le> 15"
  shows "\<exists>rest. fold (\<lambda>(word, n) topic_words.
             if word \<notin> used \<and> length topic_words < 15 then topic_words @ [word]
             else topic_words) related tw = tw @ rest
           \<and> set rest \<subseteq> fst ` set related \<and> set rest \<inter> used = {}
           \<and> length (tw @ rest) \<le> 15"
  using assms
proof (induction related arbitrary: tw)
  case Nil
  then show ?case by simp
next
  case (Cons x related)
  obtain word n where x: "x = (word, n)" by (cases x)
  show ?case
  proof (cases "word \<notin> used \<and> length tw < 15")
    case True
    then have "length (tw @ [word]) \<le> 15" by simp
    from Cons.IH [OF this] obtain rest where
      r: "fold (\<lambda>(word, n) topic_words.
             if word \<notin> used \<and> length topic_words < 15 then topic_words @ [word]
             else topic_words) related (tw @ [word]) = (tw @ [word]) @ rest"
         "set rest \<subseteq> fst ` set related" "set rest \<inter> used = {}"
         "length ((tw @ [word]) @ rest) \<le> 15"
      by blast
    show ?thesis
      by (rule exI [of _ "word # rest"]) (use True r x in auto)
  next
    case False
    from Cons.IH [OF Cons.prems] obtain rest where
      r: "fold (\<lambda>(word, n) topic_words.
             if word \<notin> used \<and> length topic_words < 15 then topic_words @ [word]
             else topic_words) related tw = tw @ rest"
         "set rest \<subseteq> fst ` set related" "set rest \<inter> used = {}"
         "length (tw @ rest) \<le> 15"
      by blast
    show ?thesis
      by (rule exI [of _ rest]) (use False r x in auto)
  qed
qed

lemma topic_members_shape:
  "\<exists>rest. topic_members used seed related = seed # rest
      \<and> set rest \<subseteq> fst ` set related \<and> set rest \<inter> used = {}
      \<and> length (seed # rest) \<le> 15"
  using topic_members_fold [of "[seed]" used related] by (simp add: topic_members_def)

lemma most_common_n_subset: "set (most_common_n n c) \<subseteq> set c"
  using set_take_subset [of n "most_common c"] by (simp add: most_common_n_def most_common_def)

lemma description_defined:
  "3 \<le> length ws \<Longrightarrow> \<exists>d. generate_topic_description ws = Inr d"
  by (cases ws rule: generate_topic_description.cases) auto

lemma cluster_loop_invariant:
  assumes "set seeds \<subseteq> S"
    and "disjoint_topics topics"
    and "\<forall>t \<in> set topics. set (topic_keywords t) \<subseteq> used \<and> members_ok S cooc t"
  shows "\<exists>ts. cluster_loop n cooc docs seeds used topics = Inr ts
           \<and> disjoint_topics ts \<and> (\<forall>t \<in> set ts. members_ok S cooc t)"
  using assms
proof (induction seeds arbitrary: used topics)
  case Nil
  then show ?case by auto
next
  case (Cons seed seeds)
  let ?related = "most_common_n 20 (nested_get cooc seed)"
  let ?tw = "topic_members used seed ?related"
  have sub: "set seeds \<subseteq> S" and seedS: "seed \<in> S" using Cons.prems(1) by auto
  show ?case
  proof (cases "seed \<in> used")
    case True
    then show ?thesis using Cons.IH [OF sub Cons.prems(2,3)] by simp
  next
    case notused: False
    show ?thesis
    proof (cases "n \<le> int (length topics)")
      case True
      then show ?thesis using notused Cons.prems by auto
    next
      case more: False
      show ?thesis
      proof (cases "3 \<le> length ?tw")
        case False
        then show ?thesis
          using notused more Cons.IH [OF sub Cons.prems(2,3)] by (simp add: Let_def)
      next
        case long: True
        obtain rest where r: "?tw = seed # rest" "set rest \<subseteq> fst ` set ?related"
          "set rest \<inter> used = {}" "length (seed # rest) \<le> 15"
          using topic_members_shape [of used seed ?related] by blast
        obtain d where d: "generate_topic_description ?tw = Inr d"
          using description_defined [OF long] by blast
        let ?t = "\<lparr>topic_id = length topics + 1, topic_keywords = ?tw,
                    topic_label = generate_topic_label ?tw, description = d,
                    document_count = count_topic_documents docs ?tw\<rparr>"
        have fresh: "set ?tw \<inter> used = {}" using r notused by auto
        have "fst ` set ?related \<subseteq> fst ` set (nested_get cooc seed)"
          by (rule image_mono) (rule most_common_n_subset)
        then have rs: "set rest \<subseteq> fst ` set (nested_get cooc seed)"
          using r(2) by (rule order_trans [rotated])
        have ok: "members_ok S cooc ?t"
          using r(1,4) rs long seedS by (simp add: members_ok_def)
        have dj: "disjoint_topics (topics @ [?t])"
          using Cons.prems(2,3) fresh by (auto simp: sorted_wrt_append)
        have inv: "\<forall>t \<in> set (topics @ [?t]).
                     set (topic_keywords t) \<subseteq> used \<union> set ?tw \<and> members_ok S cooc t"
          using Cons.prems(3) ok by auto
        from Cons.IH [OF sub dj inv] show ?thesis
          using notused more long d by (simp add: Let_def)
      qed
    qed
  qed
qed


text \<open>
  C6. \<^verbatim>\<open>lda_topic_modeling\<close> raises nothing, and in its result no two topics share a keyword;
  every topic has between 3 and 15 members; its first member is its seed, one of the valid
  words, and the other members are words counted as co-occurring with that seed.
\<close>

theorem lda_topics_disjoint:
  "\<exists>topics. lda_topic_modeling it times_001 n_topics papers = Inr topics
     \<and> (\<forall>i j. i < j \<and> j < length topics \<longrightarrow>
           set (topic_keywords (topics ! i)) \<inter> set (topic_keywords (topics ! j)) = {})
     \<and> (\<forall>t \<in> set topics.
           3 \<le> length (topic_keywords t) \<and> length (topic_keywords t) \<le> 15
           \<and> hd (topic_keywords t) \<in> set (valid_words it times_001 (lda_documents it papers))
           \<and> set (tl (topic_keywords t))
               \<subseteq> fst ` set (nested_get
                    (word_cooccurrence (valid_words it times_001 (lda_documents it papers))
                       (lda_documents it papers))
                    (hd (topic_keywords t))))"
proof -
  let ?docs = "lda_documents it papers"
  let ?valid = "valid_words it times_001 ?docs"
  let ?cooc = "word_cooccurrence ?valid ?docs"
  have "set (seed_words (word_freq ?docs) ?valid) \<subseteq> set ?valid"
    by (simp add: seed_words_def)
  from cluster_loop_invariant [OF this, of "[]" "{}" ?cooc n_topics ?docs]
  obtain ts where ts: "lda_topic_modeling it times_001 n_topics papers = Inr ts"
    "disjoint_topics ts" "\<forall>t \<in> set ts. members_ok (set ?valid) ?cooc t"
    by (auto simp: lda_topic_modeling_def Let_def)
  show ?thesis
    by (rule exI [of _ ts]) (use ts in \<open>auto simp: sorted_wrt_iff_nth_less members_ok_def\<close>)
qed

lemma topic_corpus_result:
  "lda_topic_modeling remdups (\<lambda>n. of_nat n / 100) 8 topic_corpus
     = Inr [\<lparr>topic_id = 1,
             topic_keywords = [''ai'', ''hotel'', ''tourism'', ''vr'', ''robot'', ''service''],
             topic_label = ''Ai & Hotel'',
             description = ''This topic focuses on ai, exploring its relationship with hotel, tourism, and related concepts such as vr and robot.'',
             document_count = 4\<rparr>,
           \<lparr>topic_id = 2,
             topic_keywords = [''wellness'', ''rural'', ''heritage''],
             topic_label = ''Wellness & Rural'',
             description = ''This topic examines wellness in relation to rural and heritage.'',
             document_count = 2\<rparr>]"
  by code_simp


theorem lda_topics_disjoint_witness:
  "\<exists>topics. lda_topic_modeling remdups (\<lambda>n. of_nat n / 100) 8 topic_corpus = Inr topics
     \<and> (0::nat) < 1 \<and> 1 < length topics
     \<and> topic_keywords (topics ! 0) = [''ai'', ''hotel'', ''tourism'', ''vr'', ''robot'', ''service'']
     \<and> topic_keywords (topics ! 1) = [''wellness'', ''rural'', ''heritage'']
     \<and> set (topic_keywords (topics ! 0)) \<inter> set (topic_keywords (topics ! 1)) = {}"
  using lda_topics_disjoint [of remdups "\<lambda>n. of_nat n / 100" 8 topic_corpus]
  unfolding topic_corpus_result by simp

section \<open>Research gaps without evidence, and repeated words\<close>

lemma themes_without_text:
  assumes "\<forall>p \<in> set papers. \<not> has_text (field p)"
  shows "themes field papers = []"
proof -
  have "fold (\<lambda>p c. case field p of
                    None \<Rightarrow> c
                  | Some s \<Rightarrow> if s = [] then c else counter_update (long_words s) c)
          papers c = c" for c :: "string counter"
    using assms
    by (induction papers arbitrary: c) (auto simp: has_text_def split: option.splits)
  then show ?thesis by (simp add: themes_def)
qed

lemma common_words_Nil: "common_words [] = []"
  by (simp add: common_words_def most_common_n_def most_common_def)

lemma keyword_freq_get:
  "counter_get (keyword_freq papers) k
     = sum_list (map (\<lambda>p. count_list (map lower (listed_keywords p)) k) papers)"
  by (simp add: keyword_freq_def agg_fold_get counter_get_Nil)

lemma keyword_freq_absent:
  assumes "\<forall>p \<in> set papers. \<forall>kw \<in> set (listed_keywords p). lower kw \<noteq> k"
  shows "counter_get (keyword_freq papers) k = 0"
proof -
  have "count_list (map lower (listed_keywords p)) k = 0" if "p \<in> set papers" for p
    using assms that by (auto simp: count_list_0_iff)
  then show ?thesis by (simp add: keyword_freq_get)
qed

lemma emerging_gap_untouched:
  assumes "\<forall>p \<in> set papers. \<forall>kw \<in> set (listed_keywords p). lower kw \<notin> set emerging_tech"
  shows "emerging_gap papers = [untouched_emerging_gap]"
proof -
  have z: "counter_get (keyword_freq papers) t = 0" if "t \<in> set emerging_tech" for t
    using assms that by (intro keyword_freq_absent) auto
  then have f: "filter (\<lambda>tech. counter_get (keyword_freq papers) tech < 10) emerging_tech
                  = emerging_tech"
    by (intro filter_True) simp
  have s: "sum_list (map (counter_get (keyword_freq papers)) emerging_tech) = 0"
    using z by (simp add: sum_list_eq_0_iff)
  have j: "join '', '' (take 5 emerging_tech)
             = ''generative ai, chatgpt, llm, metaverse, blockchain''"
    by (simp add: emerging_tech_def)
  have n: "emerging_tech \<noteq> []" by (simp add: emerging_tech_def)
  show ?thesis
    unfolding emerging_gap_def Let_def f s j untouched_emerging_gap_def using n by simp
qed

text \<open>
  C8 (amended). For a corpus in which no record has \<^verbatim>\<open>future_research\<close> or \<^verbatim>\<open>limitations\<close>
  text, no listed keyword is a technology term, and no keyword is high-impact and
  low-frequency, \<^verbatim>\<open>identify_research_gaps\<close> returns exactly one gap: Emerging Technology
  Applications, with all seven technology terms (each has frequency 0, below 10) and
  \<open>source_count = 0\<close>. The corpus without records is such a corpus. The function has no raising
  branch: the mean is taken only of two or more citations.
\<close>

theorem no_evidence_gaps:
  assumes "\<forall>p \<in> set papers. \<not> has_text (future_research p) \<and> \<not> has_text (limitations p)"
    and "\<forall>p \<in> set papers. \<forall>kw \<in> set (listed_keywords p). lower kw \<notin> set emerging_tech"
    and "high_impact_low_freq papers = []"
  shows "identify_research_gaps papers = [untouched_emerging_gap]"
proof -
  have "future_gap papers = []"
    using assms(1) by (simp add: future_gap_def themes_without_text common_words_Nil)
  moreover have "limitations_gap papers = []"
    using assms(1) by (simp add: limitations_gap_def themes_without_text common_words_Nil)
  moreover have "high_impact_gap papers = []"
    using assms(3) by (simp add: high_impact_gap_def)
  ultimately show ?thesis
    by (simp add: identify_research_gaps_def emerging_gap_untouched [OF assms(2)])
qed

lemma plain_corpus_no_high_impact: "high_impact_low_freq (replicate 10 plain_paper) = []"
  by code_simp

theorem no_evidence_gaps_witness:
  "\<not> has_text (future_research plain_paper) \<and> \<not> has_text (limitations plain_paper)
   \<and> set (map lower (listed_keywords plain_paper)) \<inter> set emerging_tech = {}
   \<and> high_impact_low_freq (replicate 10 plain_paper) = []
   \<and> identify_research_gaps (replicate 10 plain_paper) = [untouched_emerging_gap]
   \<and> identify_research_gaps [] = [untouched_emerging_gap]"
proof -
  have a: "\<forall>p \<in> set (replicate 10 plain_paper).
       \<not> has_text (future_research p) \<and> \<not> has_text (limitations p)"
    by (simp add: plain_paper_def has_text_def)
  have b: "\<forall>p \<in> set (replicate 10 plain_paper).
         \<forall>kw \<in> set (listed_keywords p). lower kw \<notin> set emerging_tech"
    by (simp add: plain_paper_def listed_keywords_def emerging_tech_def lower_def lower_char_def)
  have c: "high_impact_low_freq [] = []"
    by (simp add: high_impact_low_freq_def keyword_citations_def)
  have d: "\<not> has_text (future_research plain_paper) \<and> \<not> has_text (limitations plain_paper)"
    by (simp add: plain_paper_def has_text_def)
  have e: "set (map lower (listed_keywords plain_paper)) \<inter> set emerging_tech = {}"
    by (simp add: plain_paper_def listed_keywords_def emerging_tech_def lower_def lower_char_def)
  show ?thesis
    using d e plain_corpus_no_high_impact
      no_evidence_gaps [OF a b plain_corpus_no_high_impact]
      no_evidence_gaps [of "[]", OF _ _ c]
    by simp
qed

text \<open>The claim as worded fails on the corpus without records and on ten records without
  narrative text or technology terms.\<close>

theorem no_evidence_gaps_counterexample:
  "identify_research_gaps [] \<noteq> []
   \<and> identify_research_gaps (replicate 10 plain_paper) \<noteq> []"
  by code_simp

lemma themes_distinct: "distinct (map fst (themes field papers))"
proof -
  have "distinct (map fst c) \<Longrightarrow>
        distinct (map fst (fold (\<lambda>p c. case field p of
                    None \<Rightarrow> c
                  | Some s \<Rightarrow> if s = [] then c else counter_update (long_words s) c)
          papers c))" for c :: "string counter"
    by (induction papers arbitrary: c) (auto simp: counter_update_distinct split: option.splits)
  then show ?thesis by (simp add: themes_def)
qed

text \<open>What does hold of the Methodological Advancement gap: at most 10 keywords, each counted
  at least twice over all excerpts together, and \<open>source_count\<close> the number of records with a
  non-empty \<^verbatim>\<open>future_research\<close>.\<close>

lemma future_gap_shape:
  assumes "g \<in> set (future_gap papers)"
  shows "length (gap_keywords g) \<le> 10
     \<and> source_count g = length (filter (\<lambda>p. has_text (future_research p)) papers)
     \<and> (\<forall>w \<in> set (gap_keywords g). 2 \<le> counter_get (themes future_research papers) w)"
proof -
  let ?c = "themes future_research papers"
  have g: "gap_keywords g = take 10 (common_words ?c)"
    "source_count g = length (filter (\<lambda>p. has_text (future_research p)) papers)"
    using assms by (auto simp: future_gap_def Let_def split: if_splits)
  have "2 \<le> counter_get ?c w" if "w \<in> set (gap_keywords g)" for w
  proof -
    from that have "w \<in> set (common_words ?c)" unfolding g by (rule in_set_takeD)
    then obtain n where n: "(w, n) \<in> set (most_common_n 20 ?c)" "2 \<le> n"
      by (auto simp: common_words_def)
    then have "(w, n) \<in> set ?c" using most_common_n_subset by blast
    then show ?thesis using counter_get_entry [OF themes_distinct] n(2) by simp
  qed
  then show ?thesis using g by simp
qed

text \<open>
  C9 (the code at the failing input). The counter of \<^verbatim>\<open>future_research\<close> words counts every
  occurrence, also two in one excerpt. One record whose excerpt holds \<open>tourism\<close> twice, and no
  other record: \<open>tourism\<close> is a keyword of the Methodological Advancement gap, with
  \<open>source_count = 1\<close>.
\<close>

theorem repeated_word_kept:
  "length (filter (\<lambda>p. has_text (future_research p)) [repeating_paper]) = 1
   \<and> future_research repeating_paper
       = Some ''explore smart tourism adoption and rural tourism recovery across regions''
   \<and> count_list (long_words
          ''explore smart tourism adoption and rural tourism recovery across regions'')
        ''tourism'' = 2
   \<and> map (\<lambda>g. (gap_title g, gap_keywords g, source_count g))
        (identify_research_gaps [repeating_paper])
       = [(''Methodological Advancement'', [''tourism''], 1),
          (''Emerging Technology Applications'', emerging_tech, 0)]"
  by code_simp

section \<open>Tokenization of normalized token sequences\<close>

lemma lower_not_upper: "is_lower c \<Longrightarrow> \<not> is_upper c"
  by (auto simp: is_lower_def is_upper_def)

lemma digit_not_upper: "is_digit c \<Longrightarrow> \<not> is_upper c"
  by (auto simp: is_digit_def is_upper_def)

lemma lower_not_digit: "is_lower c \<Longrightarrow> \<not> is_digit c"
  by (auto simp: is_lower_def is_digit_def)

lemma lower_char_id: "\<not> is_upper c \<Longrightarrow> lower_char c = c"
  by (simp add: lower_char_def is_upper_def)

lemma plain_not_upper: "plain_char c \<Longrightarrow> \<not> is_upper c"
  by (auto simp: plain_char_def lower_not_upper digit_not_upper) (simp add: is_upper_def)

lemma space_class: "\<not> in_class (CHR '' '')" "\<not> is_word (CHR '' '')" "\<not> is_upper (CHR '' '')"
  by (simp_all add: in_class_def is_word_def is_lower_def is_upper_def is_digit_def)

lemma plain_in_class: "plain_char c \<Longrightarrow> in_class c"
  by (auto simp: plain_char_def in_class_def)

lemma plain_not_underscore: "plain_char c \<Longrightarrow> c \<noteq> CHR ''_''"
  by (auto simp: plain_char_def is_lower_def is_digit_def)

lemma lower_is_plain: "is_lower c \<Longrightarrow> plain_char c"
  by (simp add: plain_char_def)


lemma token_shape_chars: "token_shape t \<Longrightarrow> \<forall>c \<in> set t. plain_char c"
  by (cases t) (auto simp: token_shape_def lower_is_plain)

lemma join_chars:
  "\<forall>t \<in> set ts. token_shape t \<Longrightarrow>
   \<forall>c \<in> set (join '' '' ts). plain_char c \<or> c = CHR '' ''"
  by (induction "'' ''" ts rule: join.induct) (auto dest: token_shape_chars)

lemma lower_join:
  assumes "\<forall>t \<in> set ts. token_shape t"
  shows "lower (join '' '' ts) = join '' '' ts"
proof -
  have "lower_char c = c" if "c \<in> set (join '' '' ts)" for c
    using join_chars [OF assms] that
    by (auto intro!: lower_char_id simp: plain_not_upper space_class)
  then show ?thesis by (simp add: lower_def map_idI)
qed

lemma replace_all_absent: "\<not> contains old text \<Longrightarrow> replace_all old new text = text"
  by (induction "text") auto

lemma apply_phrases_alias_free:
  assumes "alias_free text"
  shows "apply_phrases text = text"
proof -
  have "fold (\<lambda>(phrase, replacement) t. replace_all phrase (space_to_underscore replacement) t)
          pm text = text"
    if "\<forall>phrase \<in> set (map fst pm). \<not> contains phrase text" for pm
    using that by (induction pm) (auto simp: replace_all_absent)
  then show ?thesis using assms by (simp add: apply_phrases_def alias_free_def)
qed

lemma longest_bounded_full:
  "p \<noteq> [] \<Longrightarrow> is_word (last p) \<Longrightarrow> longest_bounded p False = Some p"
proof (induction p)
  case Nil
  then show ?case by simp
next
  case (Cons c cs)
  show ?case
  proof (cases "cs = []")
    case True
    then show ?thesis using Cons.prems by simp
  next
    case False
    then have "longest_bounded cs False = Some cs" using Cons by simp
    then show ?thesis by simp
  qed
qed

lemma scan_token:
  assumes "token_shape t" and "rest = [] \<or> hd rest = CHR '' ''"
  shows "findall_tokens False (t @ rest) = t # findall_tokens True rest"
proof -
  obtain c p where t: "t = c # p" and c: "is_lower c" and p: "p \<noteq> []"
    and cls: "\<forall>d \<in> set p. plain_char d" and l: "is_lower (last p) \<or> is_digit (last p)"
    using assms(1) by (cases t) (auto simp: token_shape_def)
  have tw: "takeWhile in_class (p @ rest) = p"
    using cls assms(2) by (cases rest) (auto simp: takeWhile_tail plain_in_class space_class)
  have dw: "dropWhile in_class (p @ rest) = rest"
    using cls assms(2) by (cases rest) (auto simp: dropWhile_append3 plain_in_class space_class)
  have nw: "(case rest of [] \<Rightarrow> False | d # ds \<Rightarrow> is_word d) = False"
    using assms(2) by (cases rest) (auto simp: space_class)
  have w: "is_word (last p)" using l by (auto simp: is_word_def)
  have lb: "longest_bounded p False = Some p" using p w by (rule longest_bounded_full)
  show ?thesis
    unfolding t using c by (simp add: tw dw nw lb w)
qed

lemma findall_join:
  "\<forall>t \<in> set ts. token_shape t \<Longrightarrow> findall_tokens False (join '' '' ts) = ts"
proof (induction "'' ''" ts rule: join.induct)
  case 1
  then show ?case by simp
next
  case (2 x)
  then show ?case using scan_token [of x "[]"] by simp
next
  case (3 x y ys)
  have "findall_tokens False (x @ '' '' @ join '' '' (y # ys))
          = x # findall_tokens True ('' '' @ join '' '' (y # ys))"
    using 3(2) by (intro scan_token) auto
  also have "findall_tokens True ('' '' @ join '' '' (y # ys))
          = findall_tokens False (join '' '' (y # ys))"
    by (simp add: space_class)
  also have "\<dots> = y # ys" using 3 by simp
  finally show ?case by simp
qed


lemma normalize_token_normalized:
  assumes "normalized_token t"
  shows "normalize_token t = Some t"
proof -
  have sh: "token_shape t" using assms by (simp add: normalized_token_def)
  then obtain c p where t: "t = c # p" and c: "is_lower c" and p: "p \<noteq> []"
    by (cases t) (auto simp: token_shape_def)
  have "underscore_to_space t = t"
    using token_shape_chars [OF sh]
    by (auto simp: underscore_to_space_def plain_not_underscore intro!: map_idI)
  moreover have "\<not> length t < 2" using t p by (cases p) auto
  moreover have "\<not> isdigit t" using t c by (auto simp: isdigit_def lower_not_digit)
  ultimately show ?thesis
    using assms by (auto simp: normalize_token_def normalized_token_def split: option.splits)
qed

lemma filter_tokens_normalized:
  "\<forall>t \<in> set ts. normalized_token t \<Longrightarrow> filter_tokens ts = ts"
  by (induction ts) (auto simp: normalize_token_normalized)

lemma tokenize_normalized:
  assumes "\<forall>t \<in> set ts. normalized_token t" and "alias_free (join '' '' ts)"
  shows "tokenize (join '' '' ts) = ts"
proof -
  have sh: "\<forall>t \<in> set ts. token_shape t"
    using assms(1) by (simp add: normalized_token_def)
  have "filter_tokens (findall_tokens False (apply_phrases (lower (join '' '' ts)))) = ts"
    by (simp add: lower_join [OF sh] apply_phrases_alias_free [OF assms(2)]
        findall_join [OF sh] filter_tokens_normalized [OF assms(1)])
  moreover have "ts = []" if "join '' '' ts = []"
    using that sh by (cases ts; cases "tl ts") (auto simp: token_shape_def)
  ultimately show ?thesis by (auto simp: tokenize_def)
qed


lemma lower_char_not_upper: "\<not> is_upper (lower_char c)"
proof (cases "is_upper c")
  case True
  then show ?thesis by (auto simp: is_upper_def lower_char_def)
next
  case False
  then show ?thesis by (simp add: lower_char_id)
qed

lemma no_upper_lower: "no_upper (lower s)"
  by (simp add: no_upper_def lower_def lower_char_not_upper)

lemma replace_all_chars: "set (replace_all old new s) \<subseteq> set s \<union> set new"
proof (induction old new s rule: replace_all.induct)
  case (1 old new)
  then show ?case by simp
next
  case (2 old new c cs)
  show ?case
  proof (cases "old \<noteq> [] \<and> take (length old) (c # cs) = old")
    case True
    have "set (drop (length old) (c # cs)) \<subseteq> set (c # cs)" by (rule set_drop_subset)
    with 2(1) [OF True] True show ?thesis by auto
  next
    case False
    with 2(2) [OF False] show ?thesis by auto
  qed
qed

lemma phrase_replacements_lower:
  "\<forall>(phrase, replacement) \<in> set phrase_mapping. no_upper (space_to_underscore replacement)"
  by code_simp

lemma no_upper_apply_phrases:
  assumes "no_upper s"
  shows "no_upper (apply_phrases s)"
proof -
  have "no_upper (fold (\<lambda>(phrase, replacement) t.
                    replace_all phrase (space_to_underscore replacement) t) pm s)"
    if "\<forall>(phrase, replacement) \<in> set pm. no_upper (space_to_underscore replacement)"
      and "no_upper s" for pm s
    using that
  proof (induction pm arbitrary: s)
    case Nil
    then show ?case by simp
  next
    case (Cons a pm)
    obtain phrase replacement where a: "a = (phrase, replacement)" by (cases a)
    have "no_upper (replace_all phrase (space_to_underscore replacement) s)"
      using replace_all_chars [of phrase "space_to_underscore replacement" s] Cons.prems a
      by (auto simp: no_upper_def)
    then show ?case using Cons a by simp
  qed
  then show ?thesis using assms phrase_replacements_lower by (simp add: apply_phrases_def)
qed

section \<open>Tokenizing twice\<close>

lemma longest_bounded_prefix:
  "longest_bounded r nw = Some p \<Longrightarrow> p \<noteq> [] \<and> (\<exists>q. r = p @ q)"
proof (induction r arbitrary: p)
  case Nil
  then show ?case by simp
next
  case (Cons c cs)
  show ?case
  proof (cases "longest_bounded cs nw")
    case None
    then have "p = [c]" using Cons.prems by (simp split: if_splits)
    then show ?thesis by simp
  next
    case (Some p')
    then have "p = c # p'" using Cons.prems by simp
    moreover obtain q where "cs = p' @ q" using Cons.IH [OF Some] by blast
    ultimately show ?thesis by simp
  qed
qed

lemma longest_bounded_word_start:
  "is_word d \<Longrightarrow> longest_bounded (d # cs) False \<noteq> None"
proof (induction cs arbitrary: d)
  case Nil
  then show ?case by simp
next
  case (Cons e es)
  show ?case
  proof (cases "longest_bounded (e # es) False")
    case (Some p)
    then show ?thesis by simp
  next
    case None
    then have "\<not> is_word e" using Cons.IH [of e] by blast
    then show ?thesis using None Cons.prems by simp
  qed
qed

lemma longest_bounded_ends_word:
  "longest_bounded r False = Some p \<Longrightarrow> is_word (last p)"
proof (induction r arbitrary: p)
  case Nil
  then show ?case by simp
next
  case (Cons c cs)
  show ?case
  proof (cases "longest_bounded cs False")
    case (Some p')
    then have p: "p = c # p'" using Cons.prems by simp
    have "p' \<noteq> []" using longest_bounded_prefix [OF Some] by simp
    then show ?thesis using Cons.IH [OF Some] p by simp
  next
    case None
    then have p: "p = [c]"
      and b: "is_word c \<noteq> (case cs of [] \<Rightarrow> False | d # ds \<Rightarrow> is_word d)"
      using Cons.prems by (simp_all split: if_splits)
    show ?thesis
    proof (cases cs)
      case Nil
      then show ?thesis using b p by simp
    next
      case (Cons d ds)
      then have "\<not> is_word d" using None longest_bounded_word_start [of d ds] by auto
      then show ?thesis using b p Cons by simp
    qed
  qed
qed

lemma next_not_word:
  assumes "no_upper cs"
  shows "(case dropWhile in_class cs of [] \<Rightarrow> False | d # ds \<Rightarrow> is_word d) = False"
proof (cases "dropWhile in_class cs")
  case Nil
  show ?thesis unfolding Nil by simp
next
  case (Cons d ds)
  have "\<not> in_class (hd (dropWhile in_class cs))"
    by (rule hd_dropWhile) (simp only: Cons, simp)
  then have "\<not> in_class d" unfolding Cons by simp
  moreover have "d \<in> set (dropWhile in_class cs)" unfolding Cons by simp
  then have "d \<in> set cs" by (rule set_dropWhileD)
  then have "\<not> is_upper d" using assms by (simp add: no_upper_def)
  ultimately have "\<not> is_word d" by (auto simp: is_word_def in_class_def)
  then show ?thesis unfolding Cons by simp
qed

lemma findall_tokens_shape:
  "no_upper s \<Longrightarrow> \<forall>raw \<in> set (findall_tokens pw s). raw_shape raw"
proof (induction pw s rule: findall_tokens.induct)
  case (1 pw)
  then show ?case by simp
next
  case (2 pw c cs)
  have nu: "no_upper cs" using 2(4) by (simp add: no_upper_def)
  let ?nw = "case dropWhile in_class cs of [] \<Rightarrow> False | d # ds \<Rightarrow> is_word d"
  have nw: "?nw = False" using nu by (rule next_not_word)
  show ?case
  proof (cases "\<not> pw \<and> is_lower c")
    case False
    then show ?thesis using 2(3) [OF False nu] by auto
  next
    case True
    show ?thesis
    proof (cases "longest_bounded (takeWhile in_class cs) ?nw")
      case None
      then show ?thesis using True 2(1) [OF True None nu] by simp
    next
      case (Some p)
      have "no_upper (drop (length p) cs)"
        using nu set_drop_subset [of "length p" cs] by (auto simp: no_upper_def)
      then have rest: "\<forall>raw \<in> set (findall_tokens (is_word (last p)) (drop (length p) cs)).
                        raw_shape raw"
        by (rule 2(2) [OF True Some])
      have lb: "longest_bounded (takeWhile in_class cs) False = Some p" using Some nw by simp
      from longest_bounded_prefix [OF lb] obtain q where
        p: "p \<noteq> []" and q: "takeWhile in_class cs = p @ q" by blast
      have "set p \<subseteq> set (takeWhile in_class cs)" using q by simp
      then have cls: "\<forall>d \<in> set p. in_class d" using set_takeWhileD by fastforce
      have "raw_shape (c # p)"
        using True p cls longest_bounded_ends_word [OF lb] by (simp add: raw_shape_def)
      then show ?thesis using True Some rest by simp
    qed
  qed
qed


lemma stem_values_normalized: "\<forall>s \<in> set (map snd stem_mapping). normalized_token s"
  by code_simp

lemma dash_not_word: "\<not> is_word (CHR ''-'')"
  by (simp add: is_word_def is_lower_def is_upper_def is_digit_def)

lemma raw_shape_token_shape:
  assumes "raw_shape raw" and "CHR ''_'' \<notin> set raw"
  shows "token_shape raw"
proof -
  obtain c p where r: "raw = c # p" and c: "is_lower c" and p: "p \<noteq> []"
    and cls: "\<forall>d \<in> set p. in_class d" and w: "is_word (last p)"
    using assms(1) by (cases raw) (auto simp: raw_shape_def)
  have "\<forall>d \<in> set p. plain_char d"
    using cls assms(2) r by (auto simp: in_class_def plain_char_def)
  moreover have "last p \<in> set p" using p by simp
  then have "in_class (last p)" "last p \<noteq> CHR ''_''"
    using cls assms(2) r by auto
  then have "is_lower (last p) \<or> is_digit (last p)"
    using w dash_not_word by (auto simp: in_class_def)
  ultimately show ?thesis using r c p by (simp add: token_shape_def)
qed

lemma normalize_token_result:
  assumes n: "normalize_token raw = Some t" and sh: "raw_shape raw"
    and sp: "CHR '' '' \<notin> set t"
  shows "normalized_token t"
proof -
  let ?t' = "underscore_to_space raw"
  have kept: "?t' \<notin> set stopwords"
    "\<not> (?t' \<in> set academic_stopwords \<and> ?t' \<notin> set domain_terms)"
    and t: "t = (case map_of stem_mapping ?t' of Some stem \<Rightarrow> stem | None \<Rightarrow> ?t')"
    using n by (auto simp: normalize_token_def Let_def split: if_splits)
  show ?thesis
  proof (cases "map_of stem_mapping ?t'")
    case (Some s)
    then have "s \<in> set (map snd stem_mapping)"
      using map_of_SomeD [OF Some] by force
    then have "normalized_token s" using stem_values_normalized by blast
    then show ?thesis using t Some by simp
  next
    case None
    then have tt: "t = ?t'" using t by simp
    have nu: "CHR ''_'' \<notin> set raw"
    proof
      assume "CHR ''_'' \<in> set raw"
      then have "CHR '' '' \<in> set ?t'" by (force simp: underscore_to_space_def)
      then show False using sp tt by simp
    qed
    then have id: "?t' = raw" by (auto simp: underscore_to_space_def intro!: map_idI)
    show ?thesis
      using raw_shape_token_shape [OF sh nu] kept None tt
      by (simp add: normalized_token_def id)
  qed
qed

lemma filter_tokens_origin:
  "t \<in> set (filter_tokens raws) \<Longrightarrow> \<exists>raw \<in> set raws. normalize_token raw = Some t"
  by (induction raws) (auto split: option.splits)

lemma tokenize_tokens_normalized:
  assumes "t \<in> set (tokenize s)" and "CHR '' '' \<notin> set t"
  shows "normalized_token t"
proof -
  have m: "t \<in> set (filter_tokens (findall_tokens False (apply_phrases (lower s))))"
    using assms(1) by (simp add: tokenize_def split: if_splits)
  then obtain raw where raw: "raw \<in> set (findall_tokens False (apply_phrases (lower s)))"
    and n: "normalize_token raw = Some t"
    using filter_tokens_origin by blast
  have "no_upper (apply_phrases (lower s))"
    by (intro no_upper_apply_phrases no_upper_lower)
  then have "raw_shape raw" using findall_tokens_shape raw by blast
  with n show ?thesis using assms(2) by (rule normalize_token_result)
qed

text \<open>A token sequence without multi-word tokens and without a key of the phrase table
  tokenizes to itself.\<close>

lemma tokenize_twice_plain:
  assumes "\<forall>t \<in> set (tokenize s). CHR '' '' \<notin> set t"
    and "alias_free (join '' '' (tokenize s))"
  shows "tokenize (join '' '' (tokenize s)) = tokenize s"
proof -
  have "\<forall>t \<in> set (tokenize s). normalized_token t"
    using assms(1) tokenize_tokens_normalized by blast
  then show ?thesis using assms(2) by (rule tokenize_normalized)
qed

lemma token_shape_raw_shape: "token_shape t \<Longrightarrow> raw_shape t"
  by (cases t) (auto simp: token_shape_def raw_shape_def plain_in_class is_word_def)

lemma raw_shape_no_space: "raw_shape raw \<Longrightarrow> CHR '' '' \<notin> set raw"
  by (cases raw) (auto simp: raw_shape_def space_class is_lower_def)

lemma underscore_round_trip:
  "CHR '' '' \<notin> set raw \<Longrightarrow> space_to_underscore (underscore_to_space raw) = raw"
  by (induction raw) (auto simp: space_to_underscore_def underscore_to_space_def)

lemma no_space_fixed: "CHR '' '' \<notin> set t \<Longrightarrow> space_to_underscore t = t"
  by (induction t) (auto simp: space_to_underscore_def)

lemma in_class_not_upper: "in_class c \<Longrightarrow> \<not> is_upper c"
  by (auto simp: in_class_def lower_not_upper digit_not_upper) (simp_all add: is_upper_def)

lemma raw_shape_spaced_no_upper: "raw_shape raw \<Longrightarrow> no_upper (underscore_to_space raw)"
  by (cases raw)
     (auto simp: raw_shape_def no_upper_def underscore_to_space_def space_class
        lower_not_upper in_class_not_upper)

text \<open>Every token of a pass comes from a match of the pattern that is the token with its
  spaces written as underscores, or is a value of the stem table.\<close>

lemma tokenize_token_origin:
  assumes "t \<in> set (tokenize s)"
  shows "raw_shape (space_to_underscore t) \<and> normalize_token (space_to_underscore t) = Some t
         \<and> no_upper t"
proof -
  have m: "t \<in> set (filter_tokens (findall_tokens False (apply_phrases (lower s))))"
    using assms by (simp add: tokenize_def split: if_splits)
  then obtain raw where raw: "raw \<in> set (findall_tokens False (apply_phrases (lower s)))"
    and n: "normalize_token raw = Some t"
    using filter_tokens_origin by blast
  have "no_upper (apply_phrases (lower s))"
    by (intro no_upper_apply_phrases no_upper_lower)
  then have sh: "raw_shape raw" using findall_tokens_shape raw by blast
  let ?t' = "underscore_to_space raw"
  have t: "t = (case map_of stem_mapping ?t' of Some stem \<Rightarrow> stem | None \<Rightarrow> ?t')"
    using n by (auto simp: normalize_token_def Let_def split: if_splits)
  show ?thesis
  proof (cases "map_of stem_mapping ?t'")
    case (Some v)
    then have "v \<in> set (map snd stem_mapping)"
      using map_of_SomeD [OF Some] by force
    then have nv: "normalized_token v" using stem_values_normalized by blast
    then have ts: "token_shape v" by (simp add: normalized_token_def)
    have "CHR '' '' \<notin> set v"
      using token_shape_raw_shape [OF ts] by (rule raw_shape_no_space)
    then have fx: "space_to_underscore v = v" by (rule no_space_fixed)
    have "no_upper v"
      using token_shape_chars [OF ts] by (auto simp: no_upper_def plain_not_upper)
    then show ?thesis
      using t Some fx token_shape_raw_shape [OF ts] normalize_token_normalized [OF nv]
      by simp
  next
    case None
    then have tt: "t = ?t'" using t by simp
    have "space_to_underscore t = raw"
      unfolding tt using raw_shape_no_space [OF sh] by (rule underscore_round_trip)
    then show ?thesis
      using sh n raw_shape_spaced_no_upper [OF sh] tt by simp
  qed
qed

lemma scan_raw:
  assumes "raw_shape u" and "rest = [] \<or> hd rest = CHR '' ''"
  shows "findall_tokens False (u @ rest) = u # findall_tokens True rest"
proof -
  obtain c p where u: "u = c # p" and c: "is_lower c" and p: "p \<noteq> []"
    and cls: "\<forall>d \<in> set p. in_class d" and w: "is_word (last p)"
    using assms(1) by (cases u) (auto simp: raw_shape_def)
  have tw: "takeWhile in_class (p @ rest) = p"
    using cls assms(2) by (cases rest) (auto simp: takeWhile_tail space_class)
  have dw: "dropWhile in_class (p @ rest) = rest"
    using cls assms(2) by (cases rest) (auto simp: dropWhile_append3 space_class)
  have nw: "(case rest of [] \<Rightarrow> False | d # ds \<Rightarrow> is_word d) = False"
    using assms(2) by (cases rest) (auto simp: space_class)
  have lb: "longest_bounded p False = Some p" using p w by (rule longest_bounded_full)
  show ?thesis
    unfolding u using c by (simp add: tw dw nw lb w)
qed

lemma findall_join_raw:
  "\<forall>u \<in> set us. raw_shape u \<Longrightarrow> findall_tokens False (join '' '' us) = us"
proof (induction "'' ''" us rule: join.induct)
  case 1
  then show ?case by simp
next
  case (2 x)
  then show ?case using scan_raw [of x "[]"] by simp
next
  case (3 x y ys)
  have "findall_tokens False (x @ '' '' @ join '' '' (y # ys))
          = x # findall_tokens True ('' '' @ join '' '' (y # ys))"
    using 3(2) by (intro scan_raw) auto
  also have "findall_tokens True ('' '' @ join '' '' (y # ys))
          = findall_tokens False (join '' '' (y # ys))"
    by (simp add: space_class)
  also have "\<dots> = y # ys" using 3 by simp
  finally show ?case by simp
qed

lemma filter_tokens_restored:
  "\<forall>t \<in> set ts. normalize_token (space_to_underscore t) = Some t \<Longrightarrow>
   filter_tokens (map space_to_underscore ts) = ts"
  by (induction ts) auto

lemma join_no_upper:
  "\<forall>t \<in> set ts. no_upper t \<Longrightarrow> no_upper (join '' '' ts)"
  by (induction "'' ''" ts rule: join.induct) (auto simp: no_upper_def space_class)

lemma lower_no_upper: "no_upper s \<Longrightarrow> lower s = s"
  by (auto simp: no_upper_def lower_def lower_char_id intro!: map_idI)

text \<open>The phrase substitution restores the matches of such a token sequence: there is
  nothing to replace and no underscore to restore.\<close>

lemma plain_tokens_restored:
  assumes "\<forall>t \<in> set ts. CHR '' '' \<notin> set t" and "alias_free (join '' '' ts)"
  shows "apply_phrases (join '' '' ts) = join '' '' (map space_to_underscore ts)"
proof -
  have "map space_to_underscore ts = ts"
    using assms(1) by (auto intro!: map_idI simp: no_space_fixed)
  then show ?thesis using apply_phrases_alias_free [OF assms(2)] by simp
qed

text \<open>Each phrase that the table maps to itself is one token, and the substitution restores
  its underscore.\<close>

lemma self_mapped_restored:
  "\<forall>(phrase, replacement) \<in> set phrase_mapping.
     phrase = replacement \<longrightarrow>
       tokenize phrase = [phrase]
       \<and> apply_phrases (join '' '' [phrase]) = join '' '' (map space_to_underscore [phrase])"
  by code_simp

text \<open>
  C7 (amended). For every ASCII text: when the phrase substitution, applied to the tokens of
  one pass joined by single spaces, gives the tokens with their inner spaces written as
  underscores again and changes nothing else, then tokenizing the joined tokens gives the
  same token sequence. The condition holds when no token has a space and no key of the
  phrase table occurs in the joined tokens, and it holds for the multi-word tokens that the
  table maps to themselves (\<open>service quality\<close>, \<open>sustainable tourism\<close>, \<open>smart tourism\<close>,
  \<open>sharing economy\<close>), which the second pass puts together again, as long as no other key
  occurs.
\<close>

theorem tokenize_idempotent:
  assumes "ascii s"
    and "apply_phrases (join '' '' (tokenize s))
           = join '' '' (map space_to_underscore (tokenize s))"
  shows "tokenize (join '' '' (tokenize s)) = tokenize s"
proof -
  let ?ts = "tokenize s"
  have o: "\<forall>t \<in> set ?ts. raw_shape (space_to_underscore t)
             \<and> normalize_token (space_to_underscore t) = Some t \<and> no_upper t"
    using tokenize_token_origin by blast
  have lo: "lower (join '' '' ?ts) = join '' '' ?ts"
    using o by (intro lower_no_upper join_no_upper) blast
  have fa: "findall_tokens False (join '' '' (map space_to_underscore ?ts))
              = map space_to_underscore ?ts"
    using o by (intro findall_join_raw) auto
  have fi: "filter_tokens (map space_to_underscore ?ts) = ?ts"
    using o by (intro filter_tokens_restored) blast
  have "filter_tokens (findall_tokens False (apply_phrases (lower (join '' '' ?ts)))) = ?ts"
    by (simp only: lo assms(2) fa fi)
  moreover have "?ts = []" if "join '' '' ?ts = []"
  proof -
    have "\<forall>t \<in> set ?ts. t \<noteq> []"
      using o by (auto simp: raw_shape_def space_to_underscore_def)
    then show ?thesis using that by (cases ?ts; cases "tl ?ts") auto
  qed
  ultimately show ?thesis by (auto simp: tokenize_def)
qed

lemma example_tokens:
  "tokenize ''Tourists enjoy smart tourism and service quality in eco-tourism hotels.''
     = [''tourist'', ''enjoy'', ''smart tourism'', ''service quality'', ''eco-tourism'',
        ''hotel'']"
  "join '' '' [''tourist'', ''enjoy'', ''smart tourism'', ''service quality'', ''eco-tourism'',
        ''hotel'']
     = ''tourist enjoy smart tourism service quality eco-tourism hotel''"
  "apply_phrases ''tourist enjoy smart tourism service quality eco-tourism hotel''
     = ''tourist enjoy smart_tourism service_quality eco-tourism hotel''"
  "join '' '' (map space_to_underscore [''tourist'', ''enjoy'', ''smart tourism'',
        ''service quality'', ''eco-tourism'', ''hotel''])
     = ''tourist enjoy smart_tourism service_quality eco-tourism hotel''"
  "ascii ''Tourists enjoy smart tourism and service quality in eco-tourism hotels.''"
  by code_simp+

theorem tokenize_idempotent_witness:
  "ascii ''Tourists enjoy smart tourism and service quality in eco-tourism hotels.''
   \<and> tokenize ''Tourists enjoy smart tourism and service quality in eco-tourism hotels.''
       = [''tourist'', ''enjoy'', ''smart tourism'', ''service quality'', ''eco-tourism'',
          ''hotel'']
   \<and> apply_phrases (join '' ''
         (tokenize ''Tourists enjoy smart tourism and service quality in eco-tourism hotels.''))
       = ''tourist enjoy smart_tourism service_quality eco-tourism hotel''
   \<and> tokenize (join '' ''
         (tokenize ''Tourists enjoy smart tourism and service quality in eco-tourism hotels.''))
       = [''tourist'', ''enjoy'', ''smart tourism'', ''service quality'', ''eco-tourism'',
          ''hotel'']"
proof -
  have h: "apply_phrases (join '' ''
         (tokenize ''Tourists enjoy smart tourism and service quality in eco-tourism hotels.''))
       = join '' '' (map space_to_underscore
         (tokenize ''Tourists enjoy smart tourism and service quality in eco-tourism hotels.''))"
    by (simp only: example_tokens)
  show ?thesis
    using tokenize_idempotent [OF example_tokens(5) h] example_tokens(5)
    by (simp only: example_tokens)
qed

text \<open>
  For every text it fails: the phrase table turns \<open>big data analytics\<close> into the one token
  \<open>big data\<close>, which no phrase puts together again, so that the second pass cuts it in two
  and filters \<open>data\<close>; an underscore of the text does the same; and two tokens that stand
  side by side after the first pass can form a key of the table.
\<close>

theorem tokenize_idempotent_counterexample:
  "tokenize ''big data analytics'' = [''big data'']
   \<and> tokenize (join '' '' (tokenize ''big data analytics'')) = [''big'']
   \<and> tokenize (join '' '' (tokenize ''big data analytics'')) \<noteq> tokenize ''big data analytics''
   \<and> tokenize ''foo_bar'' = [''foo bar'']
   \<and> tokenize (join '' '' (tokenize ''foo_bar'')) = [''foo'', ''bar'']
   \<and> tokenize ''virtual, reality'' = [''virtual'', ''reality'']
   \<and> tokenize (join '' '' (tokenize ''virtual, reality'')) = [''vr'']"
  by code_simp

section \<open>Normalization leaves its input alone\<close>

lemma preserves_refl: "preserves n h h"
  by (simp add: preserves_def)

lemma preserves_trans: "preserves n h h1 \<Longrightarrow> preserves n h1 h2 \<Longrightarrow> preserves n h h2"
  by (simp add: preserves_def)

lemma preserves_store: "n \<le> b \<Longrightarrow> preserves n h (store b k v h)"
  by (simp add: preserves_def store_def split: option.splits)

lemma preserves_append_at: "n \<le> r \<Longrightarrow> preserves n h (append_at r v h)"
  by (simp add: preserves_def append_at_def split: option.splits)

lemma preserves_new_list: "n \<le> length h \<Longrightarrow> preserves n h (fst (new_list xs h))"
  by (simp add: preserves_def new_list_def)

lemma preserves_store_alloc:
  "n \<le> b \<Longrightarrow> n \<le> length h \<Longrightarrow> preserves n h (store b k v (h @ [obj]))"
  by (rule preserves_trans [OF _ preserves_store]) (simp_all add: preserves_def)

lemma preserves_length: "preserves n h h' \<Longrightarrow> n \<le> length h \<Longrightarrow> n \<le> length h'"
  by (simp add: preserves_def)

lemma title_step_preserves: "n \<le> b \<Longrightarrow> preserves n h (fst (title_step t a b h))"
  by (auto simp: title_step_def preserves_refl preserves_store split: pyval.splits)

lemma year_step_preserves: "n \<le> b \<Longrightarrow> preserves n h (fst (year_step t a b h))"
  by (auto simp: year_step_def preserves_refl preserves_store split: sum.splits)

lemma keywords_step_preserves:
  "n \<le> b \<Longrightarrow> n \<le> length h \<Longrightarrow> preserves n h (fst (keywords_step it a b h))"
  by (auto simp: keywords_step_def new_list_def preserves_refl preserves_store_alloc
        split: sum.splits)

lemma all_keywords_step_preserves:
  "n \<le> b \<Longrightarrow> n \<le> length h \<Longrightarrow> preserves n h (fst (all_keywords_step it b h))"
  by (auto simp: all_keywords_step_def new_list_def preserves_refl preserves_store_alloc
        split: sum.splits)


lemma abstract_step_preserves:
  assumes "n \<le> b" "n \<le> length h"
  shows "preserves n h (fst (abstract_step t a b h))"
proof -
  have chain: "preserves n h
      (store b k7 v7 (store b k6 v6 (store b k5 v5
         (store b k3 v3 (store b k1 v1 h @ [o1]) @ [o2]))))"
    for k1 v1 o1 k3 v3 o2 k5 v5 k6 v6 k7 v7
  proof -
    let ?h1 = "store b k1 v1 h"
    let ?h3 = "store b k3 v3 (?h1 @ [o1])"
    let ?h5 = "store b k5 v5 (?h3 @ [o2])"
    have 1: "preserves n h ?h1" using assms(1) by (rule preserves_store)
    have l1: "n \<le> length ?h1" using preserves_length [OF 1 assms(2)] .
    have 3: "preserves n ?h1 ?h3" using assms(1) l1 by (rule preserves_store_alloc)
    have l3: "n \<le> length ?h3" using preserves_length [OF 3 l1] .
    have 5: "preserves n ?h3 ?h5" using assms(1) l3 by (rule preserves_store_alloc)
    have 6: "preserves n ?h5 (store b k6 v6 ?h5)" using assms(1) by (rule preserves_store)
    have 7: "preserves n (store b k6 v6 ?h5) (store b k7 v7 (store b k6 v6 ?h5))"
      using assms(1) by (rule preserves_store)
    show ?thesis
      by (rule preserves_trans [OF preserves_trans [OF preserves_trans
            [OF preserves_trans [OF 1 3] 5] 6] 7])
  qed
  show ?thesis
    by (auto simp: abstract_step_def new_list_def Let_def preserves_refl chain
        split: pyval.splits)
qed

lemma run_steps_preserves:
  assumes "\<And>s h. s \<in> set ss \<Longrightarrow> n \<le> length h \<Longrightarrow> preserves n h (fst (s h))"
    and "n \<le> length h"
  shows "preserves n h (fst (run_steps ss h))"
  using assms
proof (induction ss arbitrary: h)
  case Nil
  then show ?case by (simp add: preserves_refl)
next
  case (Cons s ss)
  obtain h1 e where s: "s h = (h1, e)" by (cases "s h")
  have 1: "preserves n h h1" using Cons.prems(1) [of s h] Cons.prems(2) s by simp
  show ?case
  proof (cases e)
    case None
    have "preserves n h1 (fst (run_steps ss h1))"
      using Cons.prems(1) preserves_length [OF 1 Cons.prems(2)] by (intro Cons.IH) auto
    then show ?thesis using 1 s None by (auto intro: preserves_trans)
  next
    case (Some err)
    then show ?thesis using 1 s by simp
  qed
qed

lemma process_single_paper_preserves:
  "preserves (length h) h (fst (process_single_paper t it paper h))"
proof (cases paper)
  case (VRef a)
  show ?thesis
  proof (cases "dict_at h a")
    case None
    then show ?thesis using VRef by (simp add: process_single_paper_def preserves_refl)
  next
    case (Some d)
    let ?b = "length h"
    let ?steps = "[title_step t a ?b, abstract_step t a ?b, keywords_step it a ?b,
                   all_keywords_step it ?b, year_step t a ?b]"
    have "preserves ?b (h @ [ODict d]) (fst (run_steps ?steps (h @ [ODict d])))"
      by (rule run_steps_preserves)
         (auto simp: title_step_preserves abstract_step_preserves keywords_step_preserves
            all_keywords_step_preserves year_step_preserves)
    moreover have "preserves ?b h (h @ [ODict d])" by (simp add: preserves_def)
    ultimately have "preserves ?b h (fst (run_steps ?steps (h @ [ODict d])))"
      by (rule preserves_trans [rotated])
    then show ?thesis
      using VRef Some by (auto simp: process_single_paper_def Let_def split: prod.splits option.splits)
  qed
qed (simp_all add: process_single_paper_def preserves_refl)

lemma preserves_mono: "preserves m h h' \<Longrightarrow> n \<le> m \<Longrightarrow> preserves n h h'"
proof -
  assume p: "preserves m h h'" and nm: "n \<le> m"
  have "take n h' = take n (take m h')" using nm by (simp add: min_def)
  also have "\<dots> = take n (take m h)" using p by (simp add: preserves_def)
  also have "\<dots> = take n h" using nm by (simp add: min_def)
  finally show ?thesis using p by (simp add: preserves_def)
qed

lemma preserves_nth: "preserves n h h' \<Longrightarrow> a < n \<Longrightarrow> a < length h \<Longrightarrow> h' ! a = h ! a"
  by (metis preserves_def nth_take)

lemma process_single_paper_result:
  assumes "process_single_paper t it paper h = (h1, Inr b)"
  shows "b = length h \<and> b < length h1"
proof -
  obtain a d where a: "paper = VRef a" and d: "dict_at h a = Some d"
    using assms by (auto simp: process_single_paper_def split: pyval.splits option.splits)
  let ?b = "length h"
  let ?steps = "[title_step t a ?b, abstract_step t a ?b, keywords_step it a ?b,
                 all_keywords_step it ?b, year_step t a ?b]"
  have r: "run_steps ?steps (h @ [ODict d]) = (h1, None)" and b: "b = ?b"
    using assms a d
    by (auto simp: process_single_paper_def Let_def split: prod.splits option.splits)
  have "preserves ?b (h @ [ODict d]) (fst (run_steps ?steps (h @ [ODict d])))"
    by (rule run_steps_preserves)
       (auto simp: title_step_preserves abstract_step_preserves keywords_step_preserves
          all_keywords_step_preserves year_step_preserves)
  then have "length (h @ [ODict d]) \<le> length h1" using r by (simp add: preserves_def)
  then show ?thesis using b by simp
qed

text \<open>The loop keeps the result list at \<open>r\<close> a list of references to dictionaries made
  after it.\<close>

lemma process_one_outputs:
  assumes "r < length h" and "list_at h r = Some outs"
    and "\<forall>v \<in> set outs. \<exists>b. v = VRef b \<and> r < b \<and> b < length h"
  shows "\<exists>outs'. list_at (process_one t it r paper h) r = Some outs'
           \<and> (\<forall>v \<in> set outs'. \<exists>b. v = VRef b \<and> r < b
                  \<and> b < length (process_one t it r paper h))"
proof -
  obtain h1 res where p: "process_single_paper t it paper h = (h1, res)"
    by (cases "process_single_paper t it paper h")
  have pr: "preserves (length h) h h1"
    using process_single_paper_preserves [of h t it paper] p by simp
  have len: "length h \<le> length h1" using pr by (simp add: preserves_def)
  have "h1 ! r = h ! r" using pr assms(1) by (rule preserves_nth) (rule assms(1))
  then have l1: "list_at h1 r = Some outs"
    using assms(1,2) len by (simp add: list_at_def lookup_def)
  have old: "\<forall>v \<in> set outs. \<exists>b. v = VRef b \<and> r < b \<and> b < length h1"
    using assms(3) len by fastforce
  show ?thesis
  proof (cases res)
    case (Inl e)
    then show ?thesis using p l1 old by (simp add: process_one_def)
  next
    case (Inr b)
    then have b: "b = length h" "b < length h1"
      using process_single_paper_result [of t it paper h h1 b] p by simp_all
    show ?thesis
    proof (cases "truthy h1 (VRef b)")
      case False
      then show ?thesis using p Inr l1 old by (simp add: process_one_def)
    next
      case True
      have eq: "process_one t it r paper h = h1[r := OList (outs @ [VRef b])]"
        using p Inr True l1 by (simp add: process_one_def append_at_def)
      have "r < length h1" using assms(1) len by simp
      then have "list_at (h1[r := OList (outs @ [VRef b])]) r = Some (outs @ [VRef b])"
        by (simp add: list_at_def lookup_def)
      moreover have "\<forall>v \<in> set (outs @ [VRef b]). \<exists>b'. v = VRef b' \<and> r < b'
                        \<and> b' < length (h1[r := OList (outs @ [VRef b])])"
        using old b assms(1) by auto
      ultimately show ?thesis unfolding eq by blast
    qed
  qed
qed

lemma process_one_preserves:
  assumes "n \<le> r" and "n \<le> length h"
  shows "preserves n h (process_one t it r paper h)"
proof -
  obtain h1 res where p: "process_single_paper t it paper h = (h1, res)"
    by (cases "process_single_paper t it paper h")
  have "preserves (length h) h h1"
    using process_single_paper_preserves [of h t it paper] p by simp
  then have 1: "preserves n h h1" using assms(2) by (rule preserves_mono)
  have 2: "preserves n h1 (append_at r v h1)" for v
    using assms(1) by (rule preserves_append_at)
  show ?thesis
    using p 1 preserves_trans [OF 1 2] by (auto simp: process_one_def split: sum.splits)
qed

lemma process_loop:
  assumes "n \<le> r" and "r < length h" and "list_at h r = Some outs"
    and "\<forall>v \<in> set outs. \<exists>b. v = VRef b \<and> r < b \<and> b < length h"
  shows "preserves n h (fold (process_one t it r) elems h)
     \<and> (\<exists>outs'. list_at (fold (process_one t it r) elems h) r = Some outs'
           \<and> (\<forall>v \<in> set outs'. \<exists>b. v = VRef b \<and> r < b
                  \<and> b < length (fold (process_one t it r) elems h)))"
  using assms
proof (induction elems arbitrary: h outs)
  case Nil
  then show ?case by (simp add: preserves_refl)
next
  case (Cons paper elems)
  let ?h1 = "process_one t it r paper h"
  have 1: "preserves n h ?h1"
    using Cons.prems(1,2) by (intro process_one_preserves) auto
  obtain outs1 where o: "list_at ?h1 r = Some outs1"
    "\<forall>v \<in> set outs1. \<exists>b. v = VRef b \<and> r < b \<and> b < length ?h1"
    using process_one_outputs [OF Cons.prems(2,3,4), of t it paper] by blast
  have "preserves r h ?h1"
    using Cons.prems(2) by (intro process_one_preserves) auto
  have r1: "r < length ?h1"
    using process_one_preserves [of "Suc r" "Suc r" h] 1 Cons.prems(2)
    by (simp add: preserves_def)
  from Cons.IH [OF Cons.prems(1) r1 o]
  show ?case using 1 by (auto intro: preserves_trans)
qed


text \<open>
  C10. \<^verbatim>\<open>process_papers\<close> changes no object that exists when it is called: every dictionary
  of the input holds the keys and values it held, every list they refer to and the input list
  itself are as before. The list it returns is a new object, and the records in it are
  dictionaries made during the call (copies of the input records, to which the new fields
  are written). A record that raises is skipped, so that a call on a list of records raises
  nothing.
\<close>

theorem process_papers_frame:
  "length h \<le> length (fst (process_papers t it papers h))
   \<and> (\<forall>a < length h. fst (process_papers t it papers h) ! a = h ! a)
   \<and> (\<forall>r. snd (process_papers t it papers h) = Inr r \<longrightarrow>
         length h \<le> r
         \<and> (\<exists>outs. list_at (fst (process_papers t it papers h)) r = Some outs
               \<and> (\<forall>v \<in> set outs. \<exists>b. v = VRef b \<and> length h < b
                      \<and> b < length (fst (process_papers t it papers h)))))
   \<and> (\<forall>pa xs. papers = VRef pa \<and> list_at h pa = Some xs \<longrightarrow>
         (\<exists>r. snd (process_papers t it papers h) = Inr r))"
proof -
  let ?r = "length h"
  let ?h0 = "h @ [OList []]"
  let ?h' = "fst (process_papers t it papers h)"
  have p0: "preserves ?r h ?h0" by (simp add: preserves_def)
  have l0: "list_at ?h0 ?r = Some []" by (simp add: list_at_def lookup_def)
  have main: "preserves ?r h ?h'
     \<and> (\<forall>r. snd (process_papers t it papers h) = Inr r \<longrightarrow>
         ?r \<le> r
         \<and> (\<exists>outs. list_at ?h' r = Some outs
               \<and> (\<forall>v \<in> set outs. \<exists>b. v = VRef b \<and> ?r < b \<and> b < length ?h')))"
  proof (cases "iterate ?h0 papers")
    case (Inl e)
    then show ?thesis using p0 by (simp add: process_papers_def Let_def)
  next
    case (Inr elems)
    have eq: "process_papers t it papers h = (fold (process_one t it ?r) elems ?h0, Inr ?r)"
      using Inr by (simp add: process_papers_def Let_def)
    have "preserves ?r ?h0 (fold (process_one t it ?r) elems ?h0)
       \<and> (\<exists>outs'. list_at (fold (process_one t it ?r) elems ?h0) ?r = Some outs'
             \<and> (\<forall>v \<in> set outs'. \<exists>b. v = VRef b \<and> ?r < b
                    \<and> b < length (fold (process_one t it ?r) elems ?h0)))"
      by (rule process_loop [OF _ _ l0]) simp_all
    then show ?thesis unfolding eq using preserves_trans [OF p0] by auto
  qed
  then have pr: "preserves ?r h ?h'" by blast
  have "\<exists>r. snd (process_papers t it papers h) = Inr r"
    if "papers = VRef pa" "list_at h pa = Some xs" for pa xs
  proof -
    have "pa < length h" using that(2) by (auto simp: list_at_def lookup_def split: if_splits)
    then have "iterate ?h0 papers = Inr xs"
      using that by (auto simp: iterate_def list_at_def lookup_def nth_append
          split: option.splits pyobj.splits)
    then show ?thesis by (simp add: process_papers_def Let_def)
  qed
  moreover have "?h' ! a = h ! a" if "a < length h" for a
    using pr that by (rule preserves_nth) (rule that)
  ultimately show ?thesis using main pr by (auto simp: preserves_def)
qed

lemma example_heap_result:
  "process_papers example_tools remdups (VRef 3) example_heap
     = ([OList [VStr ''Smart Tourism'', VStr ''Hotels''],
         ODict [(''title'', VStr ''Smart hotels''),
                (''abstract'', VStr ''Tourists enjoy smart tourism in hotels.''),
                (''keywords'', VRef 0), (''year'', VStr ''2024'')],
         ODict [(''title'', VStr ''Untitled''), (''year'', VStr ''n.d.'')],
         OList [VRef 1, VRef 2],
         OList [VRef 5],
         ODict [(''title'', VStr ''Smart hotels''),
                (''abstract'', VStr ''Tourists enjoy smart tourism in hotels.''),
                (''keywords'', VRef 0), (''year'', VInt 2024),
                (''title_clean'', VStr ''Smart hotels''),
                (''abstract_clean'', VStr ''Tourists enjoy smart tourism in hotels.''),
                (''abstract_tokens'', VRef 6), (''abstract_keywords'', VRef 7),
                (''limitations'', VStr []), (''future_research'', VStr []),
                (''keywords_normalized'', VRef 8), (''all_keywords'', VRef 9)],
         OList [VStr ''tourist'', VStr ''enjoy'', VStr ''smart tourism'', VStr ''hotel''],
         OList [VStr ''tourist'', VStr ''smart tourism'', VStr ''hotel'', VStr ''enjoy''],
         OList [VStr ''smart tourism'', VStr ''hotel''],
         OList [VStr ''tourist'', VStr ''smart tourism'', VStr ''hotel'', VStr ''enjoy''],
         ODict [(''title'', VStr ''Untitled''), (''year'', VStr ''n.d.''),
                (''title_clean'', VStr ''Untitled''),
                (''keywords_normalized'', VRef 11), (''all_keywords'', VRef 12)],
         OList [], OList []],
        Inr 4)"
  by code_simp

theorem process_papers_frame_witness:
  "length example_heap = 4
   \<and> snd (process_papers example_tools remdups (VRef 3) example_heap) = Inr 4
   \<and> list_at (fst (process_papers example_tools remdups (VRef 3) example_heap)) 4
       = Some [VRef 5]
   \<and> list_at example_heap 3 = Some [VRef 1, VRef 2]
   \<and> take 4 (fst (process_papers example_tools remdups (VRef 3) example_heap))
       = example_heap"
proof -
  have n: "length example_heap = 4" by (simp add: example_heap_def)
  have l: "list_at example_heap 3 = Some [VRef 1, VRef 2]"
    by (simp add: example_heap_def list_at_def lookup_def)
  show ?thesis
    using n l process_papers_frame [of example_heap example_tools remdups "VRef 3"]
    by (simp add: example_heap_result list_at_def lookup_def) (simp add: example_heap_def)
qed

end
